theory Spec2Isabelle
  imports Complex_Main "HOL-Library.Word"
begin

section \<open>Errors and checked memory access\<close>

text \<open>
  The C++ sources index \<open>std::vector\<close>s and fixed arrays with \<open>operator[]\<close>, call
  \<open>raise(SIGINT)\<close> on internal inconsistencies and \<open>std::abort()\<close> on bad input.
  Each of these is a branch of the model: an access outside the container is
  \<open>OutOfBounds\<close> (undefined behaviour in C++), \<open>raise(SIGINT)\<close> is \<open>Interrupt\<close>
  (the default disposition ends the process), \<open>std::abort()\<close> is \<open>Abort\<close>.
  Values of type \<open>double\<close> are idealised as reals, values of type \<open>int\<close> that hold
  counts, states and indices as integers.
\<close>

datatype error = OutOfBounds | Interrupt | Abort | LengthError

definition and_then :: "error + 'a \<Rightarrow> ('a \<Rightarrow> error + 'b) \<Rightarrow> error + 'b" where
  "and_then m f = (case m of Inl e \<Rightarrow> Inl e | Inr x \<Rightarrow> f x)"

definition vec_at :: "'a list \<Rightarrow> int \<Rightarrow> error + 'a" where
  "vec_at xs i = (if 0 \<le> i \<and> i < int (length xs) then Inr (xs ! nat i) else Inl OutOfBounds)"

definition vec_set :: "'a list \<Rightarrow> int \<Rightarrow> 'a \<Rightarrow> error + 'a list" where
  "vec_set xs i v = (if 0 \<le> i \<and> i < int (length xs) then Inr (xs[nat i := v]) else Inl OutOfBounds)"

text \<open>A C array \<open>T a[2]\<close> is a pair; \<open>a[k]\<close> is defined for \<open>k = 0\<close> and \<open>k = 1\<close> only.\<close>

definition arr2_at :: "'a \<times> 'a \<Rightarrow> int \<Rightarrow> error + 'a" where
  "arr2_at a k = (if k = 0 then Inr (fst a) else if k = 1 then Inr (snd a) else Inl OutOfBounds)"

text \<open>A \<open>for\<close> loop whose bound does not change while it runs: the body is applied to
  each index in turn and the first failure ends the loop.\<close>

fun for_each :: "('i \<Rightarrow> 's \<Rightarrow> 'e + 's) \<Rightarrow> 'i list \<Rightarrow> 's \<Rightarrow> 'e + 's" where
  "for_each body [] s = Inr s"
| "for_each body (i # is) s = (case body i s of Inl e \<Rightarrow> Inl e | Inr s' \<Rightarrow> for_each body is s')"

section \<open>Reaction network (GMC/reaction\_network.h)\<close>

record Reaction =
  number_of_reactants :: "8 word"
  number_of_products :: "8 word"
  reactants :: "int \<times> int"
  products :: "int \<times> int"
  rate :: real

text \<open>The mutex of a \<open>DependentsNode\<close> is not modelled: one trajectory runs sequentially.\<close>

record DependentsNode =
  dependents :: "int list option"
  number_of_occurrences :: int

record ReactionNetwork =
  reactions :: "Reaction list"
  initial_state :: "int list"
  initial_propensities :: "real list"
  factor_zero :: real
  factor_two :: real
  factor_duplicate :: real
  dependency_threshold :: int
  dependency_graph :: "DependentsNode list"

text \<open>Modelled from the spec: \<open>Update\<close> and \<open>Event\<close> are declared in core/solvers.h,
  which is not among the sources; the spec gives them as \<open>Update{index, propensity}\<close>
  and \<open>Event{index, dt}\<close>.\<close>

record Update =
  index :: int
  propensity :: real

record Event =
  event_index :: int
  dt :: real

definition compute_propensity :: "ReactionNetwork \<Rightarrow> int list \<Rightarrow> int \<Rightarrow> error + real" where
  "compute_propensity net state reaction_index =
     and_then (vec_at (reactions net) reaction_index) (\<lambda>reaction.
       if number_of_reactants reaction = 0 then
         Inr (factor_zero net * rate reaction)
       else if number_of_reactants reaction = 1 then
         and_then (vec_at state (fst (reactants reaction))) (\<lambda>x0.
           Inr (real_of_int x0 * rate reaction))
       else if fst (reactants reaction) = snd (reactants reaction) then
         and_then (vec_at state (fst (reactants reaction))) (\<lambda>x0.
           Inr (factor_duplicate net * factor_two net * real_of_int x0
                  * real_of_int (x0 - 1) * rate reaction))
       else
         and_then (vec_at state (fst (reactants reaction))) (\<lambda>x0.
         and_then (vec_at state (snd (reactants reaction))) (\<lambda>x1.
           Inr (factor_two net * real_of_int x0 * real_of_int x1 * rate reaction))))"

definition decrement_at :: "(int \<times> int) \<Rightarrow> nat \<Rightarrow> int list \<Rightarrow> error + int list" where
  "decrement_at a m state =
     and_then (arr2_at a (int m)) (\<lambda>s.
     and_then (vec_at state s) (\<lambda>v. vec_set state s (v - 1)))"

definition increment_at :: "(int \<times> int) \<Rightarrow> nat \<Rightarrow> int list \<Rightarrow> error + int list" where
  "increment_at a m state =
     and_then (arr2_at a (int m)) (\<lambda>s.
     and_then (vec_at state s) (\<lambda>v. vec_set state s (v + 1)))"

definition update_state :: "ReactionNetwork \<Rightarrow> int list \<Rightarrow> int \<Rightarrow> error + int list" where
  "update_state net state reaction_index =
     and_then (vec_at (reactions net) reaction_index) (\<lambda>r.
     and_then (for_each (decrement_at (reactants r)) [0..<unat (number_of_reactants r)] state) (\<lambda>state1.
       for_each (increment_at (products r)) [0..<unat (number_of_products r)] state1))"

text \<open>The body shared by both passes of \<open>compute_dependency_node\<close>: does reaction \<open>j\<close>
  have a reactant among the reactants or products of \<open>reaction_index\<close>?\<close>

definition match_reactant :: "Reaction \<Rightarrow> Reaction \<Rightarrow> nat \<Rightarrow> nat \<Rightarrow> bool \<Rightarrow> error + bool" where
  "match_reactant rj ri l m flag =
     and_then (arr2_at (reactants rj) (int l)) (\<lambda>s.
     and_then (arr2_at (reactants ri) (int m)) (\<lambda>t. Inr (if s = t then True else flag)))"

definition match_product :: "Reaction \<Rightarrow> Reaction \<Rightarrow> nat \<Rightarrow> nat \<Rightarrow> bool \<Rightarrow> error + bool" where
  "match_product rj ri l n flag =
     and_then (arr2_at (reactants rj) (int l)) (\<lambda>s.
     and_then (arr2_at (products ri) (int n)) (\<lambda>t. Inr (if s = t then True else flag)))"

definition flag_reactant :: "Reaction \<Rightarrow> Reaction \<Rightarrow> nat \<Rightarrow> bool \<Rightarrow> error + bool" where
  "flag_reactant rj ri l flag =
     and_then (for_each (match_reactant rj ri l) [0..<unat (number_of_reactants ri)] flag) (\<lambda>flag1.
       for_each (match_product rj ri l) [0..<unat (number_of_products ri)] flag1)"

definition dependency_flag :: "ReactionNetwork \<Rightarrow> int \<Rightarrow> int \<Rightarrow> error + bool" where
  "dependency_flag net j reaction_index =
     and_then (vec_at (reactions net) j) (\<lambda>rj.
     and_then (vec_at (reactions net) reaction_index) (\<lambda>ri.
       for_each (flag_reactant rj ri) [0..<unat (number_of_reactants rj)] False))"

definition count_dependent :: "ReactionNetwork \<Rightarrow> int \<Rightarrow> nat \<Rightarrow> int \<Rightarrow> error + int" where
  "count_dependent net reaction_index j number_of_dependents_count =
     and_then (dependency_flag net (int j) reaction_index) (\<lambda>flag.
       Inr (if flag then number_of_dependents_count + 1 else number_of_dependents_count))"

text \<open>The second pass is a \<open>while\<close> loop over \<open>current_reaction\<close> with no bound of its
  own; reading \<open>reactions[current_reaction]\<close> past the end is \<open>OutOfBounds\<close>.\<close>

function fill_dependents ::
  "ReactionNetwork \<Rightarrow> int \<Rightarrow> int \<Rightarrow> int list \<Rightarrow> int \<Rightarrow> int \<Rightarrow> error + int list" where
  "fill_dependents net reaction_index number_of_dependents_count deps dependents_counter current_reaction =
     (if dependents_counter < number_of_dependents_count then
        (case dependency_flag net current_reaction reaction_index of
           Inl e \<Rightarrow> Inl e
         | Inr flag \<Rightarrow>
             if flag then
               (case vec_set deps dependents_counter current_reaction of
                  Inl e \<Rightarrow> Inl e
                | Inr deps' \<Rightarrow>
                    fill_dependents net reaction_index number_of_dependents_count deps'
                      (dependents_counter + 1) (current_reaction + 1))
             else
               fill_dependents net reaction_index number_of_dependents_count deps
                 dependents_counter (current_reaction + 1))
      else Inr deps)"
  by pat_completeness auto
termination
proof (relation "measure (\<lambda>(net, ri, c, deps, k, cur). nat (int (length (reactions net)) - cur))")
  show "wf (measure (\<lambda>(net, ri, c, deps, k, cur). nat (int (length (reactions net)) - cur)))"
    by simp
next
  fix net :: ReactionNetwork and reaction_index c :: int and deps :: "int list"
    and k cur :: int and flag :: bool and deps' :: "int list"
  assume "dependency_flag net cur reaction_index = Inr flag"
  then have "0 \<le> cur \<and> cur < int (length (reactions net))"
    by (auto simp: dependency_flag_def and_then_def vec_at_def split: if_splits)
  then show "((net, reaction_index, c, deps', k + 1, cur + 1), (net, reaction_index, c, deps, k, cur))
      \<in> measure (\<lambda>(net, ri, c, deps, k, cur). nat (int (length (reactions net)) - cur))"
    by simp
next
  fix net :: ReactionNetwork and reaction_index c :: int and deps :: "int list"
    and k cur :: int and flag :: bool
  assume "dependency_flag net cur reaction_index = Inr flag"
  then have "0 \<le> cur \<and> cur < int (length (reactions net))"
    by (auto simp: dependency_flag_def and_then_def vec_at_def split: if_splits)
  then show "((net, reaction_index, c, deps, k, cur + 1), (net, reaction_index, c, deps, k, cur))
      \<in> measure (\<lambda>(net, ri, c, deps, k, cur). nat (int (length (reactions net)) - cur))"
    by simp
qed

declare fill_dependents.simps [simp del]

definition compute_dependency_node :: "ReactionNetwork \<Rightarrow> int \<Rightarrow> error + ReactionNetwork" where
  "compute_dependency_node net reaction_index =
     and_then (vec_at (dependency_graph net) reaction_index) (\<lambda>node.
     and_then (for_each (count_dependent net reaction_index) [0..<length (reactions net)] 0)
       (\<lambda>number_of_dependents_count.
     and_then (fill_dependents net reaction_index number_of_dependents_count
                 (replicate (nat number_of_dependents_count) 0) 0 0) (\<lambda>deps.
     and_then (vec_set (dependency_graph net) reaction_index (node\<lparr>dependents := Some deps\<rparr>))
       (\<lambda>graph. Inr (net\<lparr>dependency_graph := graph\<rparr>)))))"

definition get_dependency_node ::
  "ReactionNetwork \<Rightarrow> int \<Rightarrow> error + (int list option \<times> ReactionNetwork)" where
  "get_dependency_node net reaction_index =
     and_then (vec_at (dependency_graph net) reaction_index) (\<lambda>node.
     and_then (if dependents node = None \<and> dependency_threshold net \<le> number_of_occurrences node
               then compute_dependency_node net reaction_index else Inr net) (\<lambda>net1.
     and_then (vec_at (dependency_graph net1) reaction_index) (\<lambda>node1.
     and_then (vec_set (dependency_graph net1) reaction_index
                 (node1\<lparr>number_of_occurrences := number_of_occurrences node1 + 1\<rparr>)) (\<lambda>graph.
       Inr (dependents node1, net1\<lparr>dependency_graph := graph\<rparr>)))))"

text \<open>The \<open>update_function\<close> callback is replaced by the list of the updates passed to
  it, in the order of the calls.\<close>

definition emit_update :: "ReactionNetwork \<Rightarrow> int list \<Rightarrow> int \<Rightarrow> Update list \<Rightarrow> error + Update list" where
  "emit_update net state reaction_index emitted =
     and_then (compute_propensity net state reaction_index) (\<lambda>new_propensity.
       Inr (emitted @ [\<lparr>index = reaction_index, propensity = new_propensity\<rparr>]))"

definition update_propensities ::
  "ReactionNetwork \<Rightarrow> int list \<Rightarrow> int \<Rightarrow> error + (Update list \<times> ReactionNetwork)" where
  "update_propensities net state next_reaction =
     and_then (get_dependency_node net next_reaction) (\<lambda>(maybe_dependents, net1).
       case maybe_dependents of
         Some deps \<Rightarrow>
           and_then (for_each (emit_update net1 state) deps []) (\<lambda>emitted. Inr (emitted, net1))
       | None \<Rightarrow>
           and_then (for_each (emit_update net1 state) (map int [0..<length (reactions net1)]) [])
             (\<lambda>emitted. Inr (emitted, net1)))"

subsection \<open>Specification-level notions for the reaction network\<close>

definition scenario_B :: ReactionNetwork where
  "scenario_B = \<lparr>reactions =
       [\<lparr>number_of_reactants = 2, number_of_products = 1, reactants = (0, 0), products = (1, -1), rate = 1/2\<rparr>,
        \<lparr>number_of_reactants = 1, number_of_products = 2, reactants = (1, -1), products = (0, 0), rate = 1/10\<rparr>,
        \<lparr>number_of_reactants = 0, number_of_products = 1, reactants = (-1, -1), products = (0, -1), rate = 3\<rparr>,
        \<lparr>number_of_reactants = 2, number_of_products = 0, reactants = (0, 1), products = (-1, -1), rate = 2\<rparr>],
     initial_state = [4, 0], initial_propensities = [6, 0, 3, 0],
     factor_zero = 1, factor_two = 1, factor_duplicate = 1,
     dependency_threshold = 0,
     dependency_graph = replicate 4 \<lparr>dependents = None, number_of_occurrences = 0\<rparr>\<rparr>"

definition reactants_of :: "Reaction \<Rightarrow> int list" where
  "reactants_of r = take (unat (number_of_reactants r)) [fst (reactants r), snd (reactants r)]"

definition products_of :: "Reaction \<Rightarrow> int list" where
  "products_of r = take (unat (number_of_products r)) [fst (products r), snd (products r)]"

definition shares_species :: "Reaction \<Rightarrow> Reaction \<Rightarrow> bool" where
  "shares_species ri rj \<longleftrightarrow>
     (\<exists>s \<in> set (reactants_of ri). s \<in> set (reactants_of rj) \<or> s \<in> set (products_of rj))"

definition Dep :: "ReactionNetwork \<Rightarrow> int \<Rightarrow> int list" where
  "Dep net j = map int (filter (\<lambda>i. shares_species (reactions net ! i) (reactions net ! nat j))
                  [0..<length (reactions net)])"

definition well_formed :: "ReactionNetwork \<Rightarrow> bool" where
  "well_formed net \<longleftrightarrow>
     length (dependency_graph net) = length (reactions net)
     \<and> (\<forall>r \<in> set (reactions net). unat (number_of_reactants r) \<le> 2 \<and> unat (number_of_products r) \<le> 2)"

definition new_DependentsNode :: DependentsNode where
  "new_DependentsNode = \<lparr>dependents = None, number_of_occurrences = 0\<rparr>"

definition call_get_dependency_node :: "int \<Rightarrow> ReactionNetwork \<Rightarrow> error + ReactionNetwork" where
  "call_get_dependency_node j net = and_then (get_dependency_node net j) (\<lambda>(maybe, net'). Inr net')"

definition node_after :: "ReactionNetwork \<Rightarrow> int \<Rightarrow> DependentsNode \<Rightarrow> DependentsNode" where
  "node_after net j node =
     node\<lparr>dependents := (if dependents node = None \<and> dependency_threshold net \<le> number_of_occurrences node
                     then Some (Dep net j) else dependents node),
          number_of_occurrences := number_of_occurrences node + 1\<rparr>"

definition fresh_graph :: "ReactionNetwork \<Rightarrow> bool" where
  "fresh_graph net \<longleftrightarrow>
     dependency_graph net = replicate (length (reactions net)) new_DependentsNode"

definition fits_state :: "ReactionNetwork \<Rightarrow> int list \<Rightarrow> bool" where
  "fits_state net state \<longleftrightarrow>
     (\<forall>r \<in> set (reactions net). \<forall>s \<in> set (reactants_of r). 0 \<le> s \<and> s < int (length state))"

definition stored_in_range :: "ReactionNetwork \<Rightarrow> bool" where
  "stored_in_range net \<longleftrightarrow>
     (\<forall>node \<in> set (dependency_graph net). \<forall>deps. dependents node = Some deps \<longrightarrow>
        (\<forall>i \<in> set deps. 0 \<le> i \<and> i < int (length (reactions net))))"

definition scenario_C :: "int \<Rightarrow> ReactionNetwork" where
  "scenario_C threshold = \<lparr>reactions =
       [\<lparr>number_of_reactants = 1, number_of_products = 1, reactants = (0, -1), products = (1, -1), rate = 1\<rparr>,
        \<lparr>number_of_reactants = 1, number_of_products = 1, reactants = (1, -1), products = (0, -1), rate = 2\<rparr>,
        \<lparr>number_of_reactants = 2, number_of_products = 1, reactants = (0, 1), products = (2, -1), rate = 1/2\<rparr>,
        \<lparr>number_of_reactants = 1, number_of_products = 0, reactants = (2, -1), products = (-1, -1), rate = 3\<rparr>,
        \<lparr>number_of_reactants = 0, number_of_products = 1, reactants = (-1, -1), products = (0, -1), rate = 4\<rparr>],
     initial_state = [5, 5, 5], initial_propensities = [5, 10, 25/2, 15, 4],
     factor_zero = 1, factor_two = 1, factor_duplicate = 1,
     dependency_threshold = threshold,
     dependency_graph = replicate 5 new_DependentsNode\<rparr>"

section \<open>Nanoparticle model (NPMC/nano\_particle.h)\<close>

text \<open>
  Names that the reaction network already uses carry a suffix here: the nanoparticle
  \<open>Reaction\<close> is \<open>Reaction_np\<close>, its \<open>rate\<close> is \<open>reaction_rate\<close>, the \<open>rate\<close> of an
  \<open>Interaction\<close> is \<open>interaction_rate\<close>, and the fields \<open>initial_state\<close> and
  \<open>species_id\<close> of \<open>NanoParticle\<close> and \<open>Site\<close> are \<open>initial_state_np\<close> and
  \<open>site_species_id\<close>.

  Modelled from the spec: \<open>Interaction\<close>, the nanoparticle \<open>Reaction\<close> and the row types
  (\<open>MetadataSql\<close>, \<open>FactorsSql\<close>, \<open>SpeciesSql\<close>, \<open>SiteSql\<close>, \<open>InteractionSql\<close>,
  \<open>InitialStateSql\<close>) are declared in NPMC/sql\_types.h and its neighbours, which are not
  among the sources. Their fields are the ones the spec lists and nano\_particle.h reads
  and writes; the two-element arrays \<open>site_id\<close>, \<open>species_id\<close>, \<open>left_state\<close> and
  \<open>right_state\<close> are pairs.
\<close>

record Site =
  site_x :: real
  site_y :: real
  site_z :: real
  site_species_id :: int

record Interaction =
  interaction_id :: int
  number_of_sites :: int
  species_id :: "int \<times> int"
  left_state :: "int \<times> int"
  right_state :: "int \<times> int"
  interaction_rate :: real

record Reaction_np =
  site_id :: "int \<times> int"
  interaction :: Interaction
  reaction_rate :: real

record MetadataSql =
  metadata_number_of_species :: int
  metadata_number_of_sites :: int

record FactorsSql =
  factor_one_site_interaction_factor :: real
  factor_two_site_interaction_factor :: real
  factor_interaction_radius_bound :: real
  factor_distance_factor_type :: string

record SpeciesSql =
  species_row_species_id :: int
  species_row_degrees_of_freedom :: int

record SiteSql =
  site_row_site_id :: int
  site_row_x :: real
  site_row_y :: real
  site_row_z :: real
  site_row_species_id :: int

record InteractionSql =
  interaction_row_number_of_sites :: int
  interaction_row_species_id_1 :: int
  interaction_row_species_id_2 :: int
  interaction_row_left_state_1 :: int
  interaction_row_left_state_2 :: int
  interaction_row_right_state_1 :: int
  interaction_row_right_state_2 :: int
  interaction_row_rate :: real

record InitialStateSql =
  initial_state_row_site_id :: int
  initial_state_row_degree_of_freedom :: int

text \<open>The two databases, as the rows each reader yields, in order.\<close>

record Databases =
  metadata_rows :: "MetadataSql list"
  factors_rows :: "FactorsSql list"
  species_rows :: "SpeciesSql list"
  site_rows :: "SiteSql list"
  interactions_rows :: "InteractionSql list"
  initial_state_rows :: "InitialStateSql list"

text \<open>A \<open>std::set<int>\<close> is a set of integers; iterating over it visits its elements in
  increasing order.\<close>

record NanoParticle =
  degrees_of_freedom :: "int list"
  sites :: "Site list"
  distance_matrix :: "real list list"
  initial_reactions :: "Reaction_np list"
  site_reaction_dependency :: "int set list"
  one_site_interactions :: "Interaction list"
  two_site_interactions :: "Interaction list"
  one_site_interactions_map :: "Interaction list list list"
  two_site_interactions_map :: "Interaction list list list list list"
  initial_state_np :: "int list"
  current_state :: "int list"
  one_site_interaction_factor :: real
  two_site_interaction_factor :: real
  interaction_radius_bound :: real
  distance_factor_function :: "real \<Rightarrow> real"

definition site_distance_squared :: "Site \<Rightarrow> Site \<Rightarrow> real" where
  "site_distance_squared s1 s2 =
     (let x_diff = site_x s1 - site_x s2;
          y_diff = site_y s1 - site_y s2;
          z_diff = site_z s1 - site_z s2
      in x_diff * x_diff + y_diff * y_diff + z_diff * z_diff)"

definition compute_distance_matrix :: "Site list \<Rightarrow> real list list" where
  "compute_distance_matrix ss = map (\<lambda>si. map (\<lambda>sj. sqrt (site_distance_squared si sj)) ss) ss"

text \<open>\<open>vector::resize\<close> of an empty vector: a negative \<open>int\<close> becomes a huge \<open>size_t\<close>
  and the call throws.\<close>

definition resized :: "int \<Rightarrow> 'a \<Rightarrow> error + 'a list" where
  "resized n v = (if n < 0 then Inl LengthError else Inr (replicate (nat n) v))"

subsection \<open>Lookups in the interaction tensors\<close>

definition one_site_lookup :: "NanoParticle \<Rightarrow> int \<Rightarrow> int \<Rightarrow> error + Interaction list" where
  "one_site_lookup np species st =
     and_then (vec_at (one_site_interactions_map np) species) (\<lambda>by_state. vec_at by_state st)"

definition two_site_lookup ::
  "NanoParticle \<Rightarrow> int \<Rightarrow> int \<Rightarrow> int \<Rightarrow> int \<Rightarrow> error + Interaction list" where
  "two_site_lookup np species_a species_b state_a state_b =
     and_then (vec_at (two_site_interactions_map np) species_a) (\<lambda>m1.
     and_then (vec_at m1 species_b) (\<lambda>m2.
     and_then (vec_at m2 state_a) (\<lambda>m3. vec_at m3 state_b)))"

definition matrix_at :: "real list list \<Rightarrow> int \<Rightarrow> int \<Rightarrow> error + real" where
  "matrix_at m i j = and_then (vec_at m i) (\<lambda>row. vec_at row j)"

definition one_site_reaction :: "NanoParticle \<Rightarrow> int \<Rightarrow> Interaction \<Rightarrow> Reaction_np" where
  "one_site_reaction np site_id_0 i =
     \<lparr>site_id = (site_id_0, - 1), interaction = i,
      reaction_rate = interaction_rate i * one_site_interaction_factor np\<rparr>"

definition two_site_reaction :: "NanoParticle \<Rightarrow> int \<Rightarrow> int \<Rightarrow> real \<Rightarrow> Interaction \<Rightarrow> Reaction_np" where
  "two_site_reaction np donor acceptor distance i =
     \<lparr>site_id = (donor, acceptor), interaction = i,
      reaction_rate = distance_factor_function np distance * interaction_rate i
                        * two_site_interaction_factor np\<rparr>"

definition set_insert :: "int set list \<Rightarrow> int \<Rightarrow> int \<Rightarrow> error + int set list" where
  "set_insert dep s i = and_then (vec_at dep s) (\<lambda>S. vec_set dep s (insert i S))"

definition set_erase :: "int set list \<Rightarrow> int \<Rightarrow> int \<Rightarrow> error + int set list" where
  "set_erase dep s i = and_then (vec_at dep s) (\<lambda>S. vec_set dep s (S - {i}))"

subsection \<open>The constructor\<close>

definition load_species :: "SpeciesSql \<Rightarrow> int list \<Rightarrow> error + int list" where
  "load_species species_row dof =
     vec_set dof (species_row_species_id species_row) (species_row_degrees_of_freedom species_row)"

definition load_site :: "SiteSql \<Rightarrow> Site list \<Rightarrow> error + Site list" where
  "load_site site_row ss =
     vec_set ss (site_row_site_id site_row)
       \<lparr>site_x = site_row_x site_row, site_y = site_row_y site_row, site_z = site_row_z site_row,
        site_species_id = site_row_species_id site_row\<rparr>"

definition row_interaction :: "InteractionSql \<Rightarrow> int \<Rightarrow> Interaction" where
  "row_interaction interaction_row interaction_counter =
     \<lparr>interaction_id = interaction_counter,
      number_of_sites = interaction_row_number_of_sites interaction_row,
      species_id = (interaction_row_species_id_1 interaction_row,
                    interaction_row_species_id_2 interaction_row),
      left_state = (interaction_row_left_state_1 interaction_row,
                    interaction_row_left_state_2 interaction_row),
      right_state = (interaction_row_right_state_1 interaction_row,
                     interaction_row_right_state_2 interaction_row),
      interaction_rate = interaction_row_rate interaction_row\<rparr>"

text \<open>One pass of the loop over the interaction rows; the state is
  \<open>(one_site_interactions, two_site_interactions, num_states, interaction_counter)\<close>.\<close>

definition load_interaction ::
  "InteractionSql \<Rightarrow> Interaction list \<times> Interaction list \<times> int \<times> int
     \<Rightarrow> Interaction list \<times> Interaction list \<times> int \<times> int" where
  "load_interaction interaction_row acc =
     (case acc of (one, two, num_states, interaction_counter) \<Rightarrow>
        (if interaction_row_number_of_sites interaction_row = 1
           then one @ [row_interaction interaction_row interaction_counter] else one,
         if interaction_row_number_of_sites interaction_row = 2
           then two @ [row_interaction interaction_row interaction_counter] else two,
         if num_states < interaction_row_left_state_1 interaction_row
           then interaction_row_left_state_1 interaction_row else num_states,
         interaction_counter + 1))"

definition put_one_site ::
  "Interaction \<Rightarrow> Interaction list list list \<Rightarrow> error + Interaction list list list" where
  "put_one_site i m =
     and_then (vec_at m (fst (species_id i))) (\<lambda>by_state.
     and_then (vec_at by_state (fst (left_state i))) (\<lambda>cell.
     and_then (vec_set by_state (fst (left_state i)) (cell @ [i])) (\<lambda>by_state'.
       vec_set m (fst (species_id i)) by_state')))"

definition put_two_site ::
  "Interaction \<Rightarrow> Interaction list list list list list
     \<Rightarrow> error + Interaction list list list list list" where
  "put_two_site i m =
     and_then (vec_at m (fst (species_id i))) (\<lambda>m1.
     and_then (vec_at m1 (snd (species_id i))) (\<lambda>m2.
     and_then (vec_at m2 (fst (left_state i))) (\<lambda>m3.
     and_then (vec_at m3 (snd (left_state i))) (\<lambda>cell.
     and_then (vec_set m3 (snd (left_state i)) (cell @ [i])) (\<lambda>m3'.
     and_then (vec_set m2 (fst (left_state i)) m3') (\<lambda>m2'.
     and_then (vec_set m1 (snd (species_id i)) m2') (\<lambda>m1'.
       vec_set m (fst (species_id i)) m1')))))))"

definition load_initial_state :: "InitialStateSql \<Rightarrow> int list \<Rightarrow> error + int list" where
  "load_initial_state initial_state_row st =
     vec_set st (initial_state_row_site_id initial_state_row)
       (initial_state_row_degree_of_freedom initial_state_row)"

text \<open>\<open>push_back\<close> of a reaction, followed by the insertion of its slot in the index of
  the sites given, and \<open>reaction_count++\<close>. The state of the enumeration is
  \<open>(initial_reactions, site_reaction_dependency, reaction_count)\<close>.\<close>

definition add_initial_reaction ::
  "int list \<Rightarrow> Reaction_np \<Rightarrow> Reaction_np list \<times> int set list \<times> int
     \<Rightarrow> error + (Reaction_np list \<times> int set list \<times> int)" where
  "add_initial_reaction registered reaction acc =
     (case acc of (rs, dep, reaction_count) \<Rightarrow>
        and_then (for_each (\<lambda>s d. set_insert d s reaction_count) registered dep) (\<lambda>dep'.
          Inr (rs @ [reaction], dep', reaction_count + 1)))"

definition enumerate_pair ::
  "NanoParticle \<Rightarrow> nat \<Rightarrow> int \<Rightarrow> int \<Rightarrow> nat \<Rightarrow> Reaction_np list \<times> int set list \<times> int
     \<Rightarrow> error + (Reaction_np list \<times> int set list \<times> int)" where
  "enumerate_pair np site_id_0 site_0_state site_0_species_id site_id_1 acc =
     (if site_id_0 \<noteq> site_id_1 then
        and_then (vec_at (current_state np) (int site_id_1)) (\<lambda>site_1_state.
        and_then (vec_at (sites np) (int site_id_1)) (\<lambda>site_1.
        and_then (matrix_at (distance_matrix np) (int site_id_0) (int site_id_1)) (\<lambda>distance.
          if distance < interaction_radius_bound np then
            and_then (two_site_lookup np site_0_species_id (site_species_id site_1)
                        site_0_state site_1_state) (\<lambda>available_interactions.
            and_then (for_each (add_initial_reaction [int site_id_0, int site_id_1])
                        (map (two_site_reaction np (int site_id_0) (int site_id_1) distance)
                           available_interactions) acc) (\<lambda>acc1.
            and_then (two_site_lookup np (site_species_id site_1) site_0_species_id
                        site_1_state site_0_state) (\<lambda>available_interactions'.
              for_each (add_initial_reaction [int site_id_0, int site_id_1])
                (map (two_site_reaction np (int site_id_1) (int site_id_0) distance)
                   available_interactions') acc1)))
          else Inr acc)))
      else Inr acc)"

definition enumerate_site ::
  "NanoParticle \<Rightarrow> nat \<Rightarrow> Reaction_np list \<times> int set list \<times> int
     \<Rightarrow> error + (Reaction_np list \<times> int set list \<times> int)" where
  "enumerate_site np site_id_0 acc =
     and_then (vec_at (current_state np) (int site_id_0)) (\<lambda>site_0_state.
     and_then (vec_at (sites np) (int site_id_0)) (\<lambda>site_0.
     and_then (one_site_lookup np (site_species_id site_0) site_0_state) (\<lambda>available_interactions.
     and_then (for_each (add_initial_reaction [int site_id_0])
                 (map (one_site_reaction np (int site_id_0)) available_interactions) acc) (\<lambda>acc1.
       for_each (enumerate_pair np site_id_0 site_0_state (site_species_id site_0))
         [0..<length (sites np)] acc1))))"

definition new_NanoParticle :: "Databases \<Rightarrow> error + NanoParticle" where
  "new_NanoParticle db =
     (case metadata_rows db of
        [] \<Rightarrow> Inl Abort
      | metadata_row # _ \<Rightarrow>
     (case factors_rows db of
        [] \<Rightarrow> Inl Abort
      | factor_row # _ \<Rightarrow>
     and_then
       (if factor_distance_factor_type factor_row = ''linear'' then
          Inr (\<lambda>distance. 1 - distance / factor_interaction_radius_bound factor_row)
        else if factor_distance_factor_type factor_row = ''inverse_cubic'' then
          Inr (\<lambda>distance. 1 / distance ^ 6)
        else Inl Abort) (\<lambda>factor_function.
     and_then (resized (metadata_number_of_species metadata_row) 0) (\<lambda>dof0.
     and_then (for_each load_species (species_rows db) dof0) (\<lambda>dof.
     and_then (resized (metadata_number_of_sites metadata_row)
                 \<lparr>site_x = 0, site_y = 0, site_z = 0, site_species_id = 0\<rparr>) (\<lambda>sites0.
     and_then (resized (metadata_number_of_sites metadata_row) {}) (\<lambda>dep0.
     and_then (for_each load_site (site_rows db) sites0) (\<lambda>sites1.
       (case fold load_interaction (interactions_rows db) ([], [], 0, 0) of
          (one, two, num_states0, interaction_counter) \<Rightarrow>
     let num_species = metadata_number_of_species metadata_row;
         num_states = num_states0 + 1
     in
     and_then (for_each put_one_site one
                 (replicate (nat num_species) (replicate (nat num_states) []))) (\<lambda>one_map.
     and_then (for_each put_two_site two
                 (replicate (nat num_species) (replicate (nat num_species)
                    (replicate (nat num_states) (replicate (nat num_states) []))))) (\<lambda>two_map.
     and_then (resized (metadata_number_of_sites metadata_row) 0) (\<lambda>state0.
     and_then (for_each load_initial_state (initial_state_rows db) state0) (\<lambda>state1.
     let np0 = \<lparr>degrees_of_freedom = dof,
                sites = sites1,
                distance_matrix = compute_distance_matrix sites1,
                initial_reactions = [],
                site_reaction_dependency = dep0,
                one_site_interactions = one,
                two_site_interactions = two,
                one_site_interactions_map = one_map,
                two_site_interactions_map = two_map,
                initial_state_np = state1,
                current_state = state1,
                one_site_interaction_factor = factor_one_site_interaction_factor factor_row,
                two_site_interaction_factor = factor_two_site_interaction_factor factor_row,
                interaction_radius_bound = factor_interaction_radius_bound factor_row,
                distance_factor_function = factor_function\<rparr>
     in
     and_then (for_each (enumerate_site np0) [0..<length sites1] ([], dep0, 0)) (\<lambda>acc.
       (case acc of (rs, dep, reaction_count) \<Rightarrow>
          Inr (np0\<lparr>initial_reactions := rs, site_reaction_dependency := dep\<rparr>))))))))))))))))"

subsection \<open>State update\<close>

text \<open>\<open>update_state\<close> changes the state vector in place; when it raises, the failure
  carries the state vector as it is at that moment.\<close>

definition update_site_state ::
  "Reaction_np \<Rightarrow> nat \<Rightarrow> int list \<Rightarrow> (error \<times> int list) + int list" where
  "update_site_state reaction k state =
     (case arr2_at (site_id reaction) (int k) of
        Inl e \<Rightarrow> Inl (e, state)
      | Inr s \<Rightarrow>
     (case vec_at state s of
        Inl e \<Rightarrow> Inl (e, state)
      | Inr found \<Rightarrow>
     (case arr2_at (left_state (interaction reaction)) (int k) of
        Inl e \<Rightarrow> Inl (e, state)
      | Inr expected \<Rightarrow>
          if found \<noteq> expected then Inl (Interrupt, state)
          else
     (case arr2_at (right_state (interaction reaction)) (int k) of
        Inl e \<Rightarrow> Inl (e, state)
      | Inr new_state \<Rightarrow>
     (case vec_set state s new_state of
        Inl e \<Rightarrow> Inl (e, state)
      | Inr state' \<Rightarrow> Inr state')))))"

definition update_state_np :: "int list \<Rightarrow> Reaction_np \<Rightarrow> (error \<times> int list) + int list" where
  "update_state_np state reaction =
     for_each (update_site_state reaction)
       [0..<nat (number_of_sites (interaction reaction))] state"

subsection \<open>Regeneration of the reactions around the fired sites\<close>

text \<open>Site ids are compared as the source compares them after its casts to
  \<open>unsigned\<close>: ids of sites are non-negative \<open>int\<close>s, and the \<open>- 1\<close> of a one-site reaction
  equals no site id before or after the cast.\<close>

definition other_site :: "Reaction_np \<Rightarrow> nat \<Rightarrow> error + int" where
  "other_site reaction k =
     (if k = 0 then Inr (snd (site_id reaction))
      else if k = 1 then Inr (fst (site_id reaction))
      else Inl Interrupt)"

definition regenerate_pair ::
  "NanoParticle \<Rightarrow> int list \<Rightarrow> int \<Rightarrow> int \<Rightarrow> int \<Rightarrow> int \<Rightarrow> nat \<Rightarrow> Reaction_np list
     \<Rightarrow> error + Reaction_np list" where
  "regenerate_pair np state site_id_0 other_site_id site_0_state site_0_species_id site_id_1 new_reactions =
     (if site_id_0 \<noteq> int site_id_1 then
        and_then (vec_at state (int site_id_1)) (\<lambda>site_1_state.
        and_then (vec_at (sites np) (int site_id_1)) (\<lambda>site_1.
        and_then (matrix_at (distance_matrix np) site_id_0 (int site_id_1)) (\<lambda>distance.
          if distance < interaction_radius_bound np then
            and_then (two_site_lookup np site_0_species_id (site_species_id site_1)
                        site_0_state site_1_state) (\<lambda>available_interactions.
              let new_reactions1 = new_reactions
                    @ map (two_site_reaction np site_id_0 (int site_id_1) distance)
                        available_interactions
              in if int site_id_1 \<noteq> other_site_id then
                   and_then (two_site_lookup np (site_species_id site_1) site_0_species_id
                               site_1_state site_0_state) (\<lambda>available_interactions'.
                     Inr (new_reactions1
                            @ map (two_site_reaction np (int site_id_1) site_id_0 distance)
                                available_interactions'))
                 else Inr new_reactions1)
          else Inr new_reactions)))
      else Inr new_reactions)"

definition regenerate_site ::
  "NanoParticle \<Rightarrow> int list \<Rightarrow> Reaction_np \<Rightarrow> nat \<Rightarrow> Reaction_np list \<Rightarrow> error + Reaction_np list" where
  "regenerate_site np state reaction k new_reactions =
     and_then (arr2_at (site_id reaction) (int k)) (\<lambda>site_id_0.
     and_then (other_site reaction k) (\<lambda>other_site_id.
     and_then (arr2_at (right_state (interaction reaction)) (int k)) (\<lambda>site_0_state.
     and_then (vec_at (sites np) site_id_0) (\<lambda>site_0.
     and_then (one_site_lookup np (site_species_id site_0) site_0_state) (\<lambda>available_interactions.
       for_each (regenerate_pair np state site_id_0 other_site_id site_0_state (site_species_id site_0))
         [0..<length (sites np)]
         (new_reactions @ map (one_site_reaction np site_id_0) available_interactions))))))"

definition generate_new_reactions ::
  "NanoParticle \<Rightarrow> int list \<Rightarrow> Reaction_np \<Rightarrow> error + Reaction_np list" where
  "generate_new_reactions np state reaction =
     for_each (regenerate_site np state reaction)
       [0..<nat (number_of_sites (interaction reaction))] []"

subsection \<open>Removal of the reactions of the fired sites from the index\<close>

text \<open>The state of this phase is \<open>(reactions_to_remove, current_site_reaction_dependency)\<close>.\<close>

definition unregister ::
  "Reaction_np list \<Rightarrow> int \<Rightarrow> int set \<times> int set list \<Rightarrow> error + (int set \<times> int set list)" where
  "unregister current_reactions reaction_id_to_remove acc =
     (case acc of (reactions_to_remove, dep) \<Rightarrow>
        and_then (vec_at current_reactions reaction_id_to_remove) (\<lambda>reaction_to_remove.
        and_then (set_erase dep (fst (site_id reaction_to_remove)) reaction_id_to_remove) (\<lambda>dep1.
          if number_of_sites (interaction reaction_to_remove) = 2 then
            and_then (set_erase dep1 (snd (site_id reaction_to_remove)) reaction_id_to_remove) (\<lambda>dep2.
              Inr (insert reaction_id_to_remove reactions_to_remove, dep2))
          else Inr (insert reaction_id_to_remove reactions_to_remove, dep1))))"

definition collect_site ::
  "Reaction_np list \<Rightarrow> Reaction_np \<Rightarrow> nat \<Rightarrow> int set \<times> int set list
     \<Rightarrow> error + (int set \<times> int set list)" where
  "collect_site current_reactions reaction k acc =
     and_then (arr2_at (site_id reaction) (int k)) (\<lambda>s.
     and_then (vec_at (snd acc) s) (\<lambda>reaction_dependency.
       for_each (unregister current_reactions) (sorted_list_of_set reaction_dependency) acc))"

subsection \<open>Placing the new reactions\<close>

definition register_sites :: "Reaction_np \<Rightarrow> int \<Rightarrow> int set list \<Rightarrow> error + int set list" where
  "register_sites reaction slot dep =
     for_each (\<lambda>k d. and_then (arr2_at (site_id reaction) (int k)) (\<lambda>s. set_insert d s slot))
       [0..<nat (number_of_sites (interaction reaction))] dep"

text \<open>The iterator \<open>reactions_to_remove_itr\<close> starts at \<open>begin()\<close> and each overwritten
  slot is erased as the iterator moves on, so it always points at the least element
  left. The state is \<open>(reactions_to_remove, dependency, current_reactions)\<close>.\<close>

definition place_new ::
  "nat \<Rightarrow> nat \<times> Reaction_np \<Rightarrow> int set \<times> int set list \<times> Reaction_np list
     \<Rightarrow> error + (int set \<times> int set list \<times> Reaction_np list)" where
  "place_new n_reactions_to_remove indexed acc =
     (case (indexed, acc) of ((i, new_reaction), (reactions_to_remove, dep, current_reactions)) \<Rightarrow>
        if i < n_reactions_to_remove then
          (if reactions_to_remove = {} then Inl OutOfBounds
           else
             and_then (vec_set current_reactions (Min reactions_to_remove) new_reaction) (\<lambda>rs'.
             and_then (register_sites new_reaction (Min reactions_to_remove) dep) (\<lambda>dep'.
               Inr (reactions_to_remove - {Min reactions_to_remove}, dep', rs'))))
        else
          and_then (register_sites new_reaction (int (length (current_reactions @ [new_reaction])) - 1) dep)
            (\<lambda>dep'. Inr (reactions_to_remove, dep', current_reactions @ [new_reaction])))"

subsection \<open>Moving reactions from the end into the slots left\<close>

definition remap_site ::
  "Reaction_np \<Rightarrow> int \<Rightarrow> int \<Rightarrow> nat \<Rightarrow> int set list \<Rightarrow> error + int set list" where
  "remap_site reaction_to_move reaction_idx_to_move destination k dep =
     and_then (arr2_at (site_id reaction_to_move) (int k)) (\<lambda>s.
     and_then (vec_at dep s) (\<lambda>S.
       if reaction_idx_to_move \<in> S
       then vec_set dep s (insert destination (S - {reaction_idx_to_move}))
       else Inl Interrupt))"

definition relocate ::
  "int \<Rightarrow> int \<Rightarrow> int set list \<times> Reaction_np list \<Rightarrow> error + (int set list \<times> Reaction_np list)" where
  "relocate reaction_idx_to_move destination acc =
     (case acc of (dep, current_reactions) \<Rightarrow>
        and_then (vec_at current_reactions reaction_idx_to_move) (\<lambda>reaction_to_move.
        and_then (vec_set current_reactions destination reaction_to_move) (\<lambda>rs'.
        and_then (for_each (remap_site reaction_to_move reaction_idx_to_move destination)
                    [0..<nat (number_of_sites (interaction reaction_to_move))] dep) (\<lambda>dep'.
          Inr (dep', rs')))))"

text \<open>The \<open>while\<close> loop. \<open>order\<close> lists \<open>reactions_to_remove\<close> in increasing order;
  \<open>reactions_moved_itr\<close> has been advanced \<open>reactions_moved\<close> times, so it points at
  \<open>order ! reactions_moved\<close>, and \<open>n_reactions_to_move\<close> is the length of \<open>order\<close>.\<close>

function move_down ::
  "int list \<Rightarrow> nat \<Rightarrow> int \<Rightarrow> int set list \<times> Reaction_np list
     \<Rightarrow> error + (int set list \<times> Reaction_np list)" where
  "move_down order reactions_moved reaction_idx_to_move acc =
     (if reactions_moved < length order then
        (if reaction_idx_to_move \<in> set order then
           move_down order reactions_moved (reaction_idx_to_move - 1) acc
         else if reaction_idx_to_move < order ! reactions_moved then Inr acc
         else
           (case relocate reaction_idx_to_move (order ! reactions_moved) acc of
              Inl e \<Rightarrow> Inl e
            | Inr acc' \<Rightarrow> move_down order (reactions_moved + 1) (reaction_idx_to_move - 1) acc'))
      else Inr acc)"
  by pat_completeness auto
termination
proof (relation "measures [\<lambda>(order, moved, idx, acc). length order - moved,
                           \<lambda>(order, moved, idx, acc). nat (idx + 1 - Min (set order))]")
  show "wf (measures [\<lambda>(order :: int list, moved :: nat, idx :: int,
                         acc :: int set list \<times> Reaction_np list). length order - moved,
                      \<lambda>(order, moved, idx, acc). nat (idx + 1 - Min (set order))])"
    by simp
next
  fix order :: "int list" and moved :: nat and idx :: int
    and acc :: "int set list \<times> Reaction_np list"
  assume "moved < length order" and mem: "idx \<in> set order"
  from mem have "Min (set order) \<le> idx" by simp
  then show "((order, moved, idx - 1, acc), (order, moved, idx, acc))
      \<in> measures [\<lambda>(order, moved, idx, acc). length order - moved,
                   \<lambda>(order, moved, idx, acc). nat (idx + 1 - Min (set order))]"
    by simp
next
  fix order :: "int list" and moved :: nat and idx :: int
    and acc acc' :: "int set list \<times> Reaction_np list"
  assume "moved < length order"
  then have "length order - (moved + 1) < length order - moved" by arith
  then show "((order, moved + 1, idx - 1, acc'), (order, moved, idx, acc))
      \<in> measures [\<lambda>(order, moved, idx, acc). length order - moved,
                   \<lambda>(order, moved, idx, acc). nat (idx + 1 - Min (set order))]"
    by simp
qed

declare move_down.simps [simp del]

definition update_reactions ::
  "NanoParticle \<Rightarrow> int list \<Rightarrow> int set list \<Rightarrow> Reaction_np list \<Rightarrow> Reaction_np
     \<Rightarrow> error + (int set list \<times> Reaction_np list)" where
  "update_reactions np state current_site_reaction_dependency current_reactions reaction =
     and_then (generate_new_reactions np state reaction) (\<lambda>new_reactions.
     and_then (for_each (collect_site current_reactions reaction)
                 [0..<nat (number_of_sites (interaction reaction))]
                 ({}, current_site_reaction_dependency)) (\<lambda>(reactions_to_remove, dep1).
     and_then (for_each (place_new (card reactions_to_remove))
                 (zip [0..<length new_reactions] new_reactions)
                 (reactions_to_remove, dep1, current_reactions)) (\<lambda>(remaining, dep2, rs2).
       if 0 < card remaining then
         and_then (move_down (sorted_list_of_set remaining) 0 (int (length rs2) - 1) (dep2, rs2))
           (\<lambda>(dep3, rs3).
              if card remaining \<le> length rs3
              then Inr (dep3, take (length rs3 - card remaining) rs3)
              else Inl LengthError)
       else Inr (dep2, rs2))))"

subsection \<open>Example inputs for the nanoparticle model\<close>

text \<open>Scenario E of the specification: two sites of one species with two local states
  at distance 1, one two-site interaction \<open>(0,0) \<rightarrow> (1,1)\<close> of rate 1, radius bound 10,
  linear distance factor, initial state \<open>[0, 0]\<close>; \<open>f\<close> is the
  \<open>two_site_interaction_factor\<close>.\<close>

definition scenario_E :: "real \<Rightarrow> Databases" where
  "scenario_E f =
     \<lparr>metadata_rows = [\<lparr>metadata_number_of_species = 1, metadata_number_of_sites = 2\<rparr>],
      factors_rows = [\<lparr>factor_one_site_interaction_factor = 1,
                       factor_two_site_interaction_factor = f,
                       factor_interaction_radius_bound = 10,
                       factor_distance_factor_type = ''linear''\<rparr>],
      species_rows = [\<lparr>species_row_species_id = 0, species_row_degrees_of_freedom = 2\<rparr>],
      site_rows = [\<lparr>site_row_site_id = 0, site_row_x = 0, site_row_y = 0, site_row_z = 0,
                     site_row_species_id = 0\<rparr>,
                   \<lparr>site_row_site_id = 1, site_row_x = 1, site_row_y = 0, site_row_z = 0,
                     site_row_species_id = 0\<rparr>],
      interactions_rows = [\<lparr>interaction_row_number_of_sites = 2,
                             interaction_row_species_id_1 = 0, interaction_row_species_id_2 = 0,
                             interaction_row_left_state_1 = 0, interaction_row_left_state_2 = 0,
                             interaction_row_right_state_1 = 1, interaction_row_right_state_2 = 1,
                             interaction_row_rate = 1\<rparr>],
      initial_state_rows = [\<lparr>initial_state_row_site_id = 0, initial_state_row_degree_of_freedom = 0\<rparr>,
                            \<lparr>initial_state_row_site_id = 1, initial_state_row_degree_of_freedom = 0\<rparr>]\<rparr>"

definition pair_reaction :: Reaction_np where
  "pair_reaction = \<lparr>site_id = (0, 1),
      interaction = \<lparr>interaction_id = 0, number_of_sites = 2, species_id = (0, 0),
                     left_state = (0, 0), right_state = (1, 1), interaction_rate = 1\<rparr>,
      reaction_rate = 9 / 10\<rparr>"

subsection \<open>The per-site reaction index\<close>

text \<open>The sites of a reaction are the entries of \<open>site_id\<close> that its interaction uses.\<close>

definition sites_of :: "Reaction_np \<Rightarrow> int set" where
  "sites_of r =
     (if number_of_sites (interaction r) = 2 then {fst (site_id r), snd (site_id r)}
      else {fst (site_id r)})"

text \<open>The reactions that the constructor and \<open>update_reactions\<close> build: one or two
  sites, each the id of one of the \<open>n\<close> sites, and two different ones for a two-site
  reaction.\<close>

definition well_formed_reaction :: "int \<Rightarrow> Reaction_np \<Rightarrow> bool" where
  "well_formed_reaction n r \<longleftrightarrow>
     (number_of_sites (interaction r) = 1 \<or> number_of_sites (interaction r) = 2)
     \<and> 0 \<le> fst (site_id r) \<and> fst (site_id r) < n
     \<and> (number_of_sites (interaction r) = 2 \<longrightarrow>
           0 \<le> snd (site_id r) \<and> snd (site_id r) < n \<and> fst (site_id r) \<noteq> snd (site_id r))"

text \<open>
  The invariant of the specification at a quiescent point, for the vector
  \<open>current_reactions\<close> and the index \<open>dep\<close> with one set per site: every slot of the
  vector holds a reaction and is registered under each of its sites, and every entry
  \<open>(s, i)\<close> of the index names a slot \<open>i\<close> of the vector whose reaction has the site
  \<open>s\<close>. The live slots are the positions \<open>0, ..., length - 1\<close> of the vector.
\<close>

definition index_invariant :: "Reaction_np list \<Rightarrow> int set list \<Rightarrow> bool" where
  "index_invariant rs dep \<longleftrightarrow>
     list_all (well_formed_reaction (int (length dep))) rs
     \<and> (\<forall>i \<in> set [0..<length rs]. \<forall>s \<in> sites_of (rs ! i). int i \<in> dep ! nat s)
     \<and> (\<forall>s \<in> set [0..<length dep]. \<forall>i \<in> dep ! s.
           0 \<le> i \<and> i < int (length rs) \<and> int s \<in> sites_of (rs ! nat i))"

text \<open>The same with a set \<open>H\<close> of slots that are being replaced: a slot of \<open>H\<close> is
  registered nowhere. This is the state between the phases of \<open>update_reactions\<close>.\<close>

definition holes_invariant :: "Reaction_np list \<Rightarrow> int set list \<Rightarrow> int set \<Rightarrow> bool" where
  "holes_invariant rs dep H \<longleftrightarrow>
     (\<forall>r \<in> set rs. well_formed_reaction (int (length dep)) r)
     \<and> (\<forall>i. 0 \<le> i \<and> i < int (length rs) \<and> i \<notin> H \<longrightarrow>
           (\<forall>s \<in> sites_of (rs ! nat i). i \<in> dep ! nat s))
     \<and> (\<forall>s i. 0 \<le> s \<and> s < int (length dep) \<and> i \<in> dep ! nat s \<longrightarrow>
           0 \<le> i \<and> i < int (length rs) \<and> i \<notin> H \<and> s \<in> sites_of (rs ! nat i))"

text \<open>The sites of the fired reaction that the loops over \<open>k\<close> visit.\<close>

definition fired_sites :: "Reaction_np \<Rightarrow> int list" where
  "fired_sites r = take (nat (number_of_sites (interaction r))) [fst (site_id r), snd (site_id r)]"

text \<open>The tensors as the constructor fills them: the one-site tensor holds one-site
  interactions, the two-site tensor two-site interactions.\<close>

definition interactions_sorted :: "NanoParticle \<Rightarrow> bool" where
  "interactions_sorted np \<longleftrightarrow>
     (\<forall>by_state \<in> set (one_site_interactions_map np). \<forall>cell \<in> set by_state.
        \<forall>i \<in> set cell. number_of_sites i = 1)
     \<and> (\<forall>m1 \<in> set (two_site_interactions_map np). \<forall>m2 \<in> set m1. \<forall>m3 \<in> set m2.
          \<forall>cell \<in> set m3. \<forall>i \<in> set cell. number_of_sites i = 2)"

section \<open>Simulation driver (core/simulation.h)\<close>

text \<open>The field \<open>time\<close> of \<open>HistoryElement\<close> is named \<open>history_time\<close>, since
  \<open>Simulation\<close> has a field \<open>time\<close> of its own.\<close>

record HistoryElement =
  reaction_id :: int
  history_time :: real

text \<open>
  \<open>Simulation\<close> is a template over \<open>Solver\<close> and \<open>Model\<close>. The operations it uses of
  either are the fields of \<open>interface\<close>: the model state \<open>'m\<close> is held by reference and
  changed by \<open>update_propensities\<close>, the solver state \<open>'s\<close> is owned; \<open>'e\<close> is the type of
  the failures of the model. Modelled from the spec: the solver (core/solvers.h) is
  not among the sources; \<open>event()\<close> returns an event or nothing and may advance the
  solver's random source, \<open>update(Update)\<close> sets one propensity.
\<close>

record ('m, 's, 'e) interface =
  Solver_new :: "nat \<Rightarrow> real list \<Rightarrow> 's"
  Solver_event :: "'s \<Rightarrow> Event option \<times> 's"
  Solver_update :: "Update \<Rightarrow> 's \<Rightarrow> 's"
  Model_initial_state :: "'m \<Rightarrow> int list"
  Model_initial_propensities :: "'m \<Rightarrow> real list"
  Model_update_state :: "'m \<Rightarrow> int list \<Rightarrow> int \<Rightarrow> 'e + int list"
  Model_update_propensities :: "'m \<Rightarrow> int list \<Rightarrow> int \<Rightarrow> 'e + (Update list \<times> 'm)"

record ('m, 's) Simulation =
  model :: 'm
  seed :: nat
  state :: "int list"
  time :: real
  time_cutoff :: real
  step :: int
  solver :: 's
  history :: "HistoryElement list"

text \<open>A failure of the driver itself is a write to \<open>history\<close> outside the vector, or a
  vector of negative length requested by the constructor; a failure of the model is
  passed on.\<close>

datatype 'e sim_error = HistoryOutOfBounds | LengthError | ModelError 'e

definition new_Simulation ::
  "('m, 's, 'e) interface \<Rightarrow> 'm \<Rightarrow> nat \<Rightarrow> int \<Rightarrow> real \<Rightarrow> 'e sim_error + ('m, 's) Simulation" where
  "new_Simulation ops model_ref seed_arg step_cutoff time_cutoff_arg =
     (if step_cutoff + 1 < 0 then Inl LengthError
      else Inr \<lparr>model = model_ref,
                seed = seed_arg,
                state = Model_initial_state ops model_ref,
                time = 0,
                time_cutoff = time_cutoff_arg,
                step = 0,
                solver = Solver_new ops seed_arg (Model_initial_propensities ops model_ref),
                history = replicate (nat (step_cutoff + 1)) \<lparr>reaction_id = 0, history_time = 0\<rparr>\<rparr>)"

text \<open>The callback \<open>update_function\<close> forwards each update to \<open>solver.update\<close>; the
  updates the model emits are folded into the solver in the order of emission.\<close>

definition execute_step ::
  "('m, 's, 'e) interface \<Rightarrow> ('m, 's) Simulation \<Rightarrow> 'e sim_error + (bool \<times> ('m, 's) Simulation)" where
  "execute_step ops sim =
     (case Solver_event ops (solver sim) of
        (None, solver1) \<Rightarrow> Inr (False, sim\<lparr>solver := solver1\<rparr>)
      | (Some event, solver1) \<Rightarrow>
          let next_reaction = event_index event;
              time1 = time sim + dt event
          in if \<not> (0 \<le> step sim \<and> step sim < int (length (history sim)))
             then Inl HistoryOutOfBounds
             else
               let history1 = (history sim)[nat (step sim) :=
                                \<lparr>reaction_id = next_reaction, history_time = time1\<rparr>];
                   step1 = step sim + 1
               in case Model_update_state ops (model sim) (state sim) next_reaction of
                    Inl e \<Rightarrow> Inl (ModelError e)
                  | Inr state1 \<Rightarrow>
                      (case Model_update_propensities ops (model sim) state1 next_reaction of
                         Inl e \<Rightarrow> Inl (ModelError e)
                       | Inr (emitted, model1) \<Rightarrow>
                           Inr (\<not> (time_cutoff sim \<le> time1),
                                sim\<lparr>model := model1,
                                    state := state1,
                                    time := time1,
                                    step := step1,
                                    solver := fold (Solver_update ops) emitted solver1,
                                    history := history1\<rparr>)))"

function execute_steps ::
  "('m, 's, 'e) interface \<Rightarrow> int \<Rightarrow> ('m, 's) Simulation \<Rightarrow> 'e sim_error + ('m, 's) Simulation" where
  "execute_steps ops step_cutoff sim =
     (case execute_step ops sim of
        Inl e \<Rightarrow> Inl e
      | Inr (continue, sim') \<Rightarrow>
          if continue then
            (if step_cutoff < step sim' then Inr sim' else execute_steps ops step_cutoff sim')
          else Inr sim')"
  by pat_completeness auto
termination
proof (relation "measure (\<lambda>(ops, step_cutoff, sim). nat (step_cutoff + 1 - step sim))")
  show "wf (measure (\<lambda>(ops :: ('m, 's, 'e) interface, step_cutoff, sim :: ('m, 's) Simulation).
              nat (step_cutoff + 1 - step sim)))"
    by simp
next
  fix ops :: "('m, 's, 'e) interface" and step_cutoff :: int and sim sim' :: "('m, 's) Simulation"
    and x continue
  assume run: "execute_step ops sim = Inr x" and x: "(continue, sim') = x"
    and c: "continue" and le: "\<not> step_cutoff < step sim'"
  from run x c have "step sim' = step sim + 1"
    by (auto simp: execute_step_def Let_def split: prod.splits option.splits if_splits sum.splits)
  with le show "((ops, step_cutoff, sim'), (ops, step_cutoff, sim))
      \<in> measure (\<lambda>(ops, step_cutoff, sim). nat (step_cutoff + 1 - step sim))"
    by simp
qed

declare execute_steps.simps [simp del]

text \<open>The reaction network as the \<open>Model\<close> of a simulation, with any solver.\<close>

definition network_interface ::
  "(nat \<Rightarrow> real list \<Rightarrow> 's) \<Rightarrow> ('s \<Rightarrow> Event option \<times> 's) \<Rightarrow> (Update \<Rightarrow> 's \<Rightarrow> 's)
     \<Rightarrow> (ReactionNetwork, 's, error) interface" where
  "network_interface mk ev upd =
     \<lparr>Solver_new = mk, Solver_event = ev, Solver_update = upd,
      Model_initial_state = initial_state,
      Model_initial_propensities = initial_propensities,
      Model_update_state = update_state,
      Model_update_propensities = update_propensities\<rparr>"

subsection \<open>A deterministic solver for examples\<close>

text \<open>A stand-in for the solver, used only to run the driver on concrete inputs: it
  fires the first reaction with a nonzero propensity after the mean waiting time, and
  yields no event when the propensities sum to 0.\<close>

definition first_reaction_event :: "real list \<Rightarrow> Event option \<times> real list" where
  "first_reaction_event ps =
     (if sum_list ps = 0 then (None, ps)
      else (Some \<lparr>event_index = int (length (takeWhile (\<lambda>p. p = 0) ps)), dt = 1 / sum_list ps\<rparr>, ps))"

definition first_reaction_update :: "Update \<Rightarrow> real list \<Rightarrow> real list" where
  "first_reaction_update u ps = ps[nat (index u) := propensity u]"

definition scenario_A :: ReactionNetwork where
  "scenario_A = \<lparr>reactions =
       [\<lparr>number_of_reactants = 1, number_of_products = 0, reactants = (0, -1), products = (-1, -1), rate = 1\<rparr>],
     initial_state = [2], initial_propensities = [2],
     factor_zero = 1, factor_two = 1, factor_duplicate = 1,
     dependency_threshold = 0,
     dependency_graph = [new_DependentsNode]\<rparr>"

definition scenario_A_interface :: "(ReactionNetwork, real list, error) interface" where
  "scenario_A_interface = network_interface (\<lambda>seed ps. ps) first_reaction_event first_reaction_update"

section \<open>Basic facts about checked access\<close>

lemma and_then_Inr [simp]: "and_then (Inr x) f = f x"
  by (simp add: and_then_def)

lemma and_then_Inl [simp]: "and_then (Inl e) f = Inl e"
  by (simp add: and_then_def)

lemma and_then_eq_Inr: "and_then m f = Inr y \<longleftrightarrow> (\<exists>x. m = Inr x \<and> f x = Inr y)"
  by (cases m) simp_all

lemma vec_at_eq_Inr: "vec_at xs i = Inr v \<longleftrightarrow> 0 \<le> i \<and> i < int (length xs) \<and> v = xs ! nat i"
  by (auto simp: vec_at_def)

lemma vec_at_in: "0 \<le> i \<Longrightarrow> i < int (length xs) \<Longrightarrow> vec_at xs i = Inr (xs ! nat i)"
  by (simp add: vec_at_def)

section \<open>Properties of the reaction network\<close>

subsection \<open>Propensity formula\<close>

text \<open>
  Claim C2. For a reaction \<open>r\<close> stored at index \<open>j\<close> with reactant slots \<open>(s1, s2)\<close>,
  \<open>compute_propensity\<close> returns \<open>factor_zero * rate\<close> when \<open>r\<close> has no reactant,
  \<open>x[s1] * rate\<close> when it has one, \<open>factor_two * x[s1] * x[s2] * rate\<close> when it has two
  distinct ones and \<open>factor_duplicate * factor_two * x[s] * (x[s] - 1) * rate\<close> when it has
  two equal ones; the result is 0 when \<open>x[s]\<close> is 0 or 1 in the equal case and when
  \<open>x[s] = 0\<close> in the one-reactant case. Reading \<open>x[s]\<close> is \<open>vec_at x s = Inr v\<close>.
\<close>

theorem compute_propensity_formula:
  assumes "vec_at (reactions net) j = Inr r" and "reactants r = (s1, s2)"
  shows "(number_of_reactants r = 0 \<longrightarrow>
            compute_propensity net x j = Inr (factor_zero net * rate r))
       \<and> (number_of_reactants r = 1 \<and> vec_at x s1 = Inr v1 \<longrightarrow>
            compute_propensity net x j = Inr (real_of_int v1 * rate r)
            \<and> (v1 = 0 \<longrightarrow> compute_propensity net x j = Inr 0))
       \<and> (number_of_reactants r = 2 \<and> s1 \<noteq> s2 \<and> vec_at x s1 = Inr v1 \<and> vec_at x s2 = Inr v2 \<longrightarrow>
            compute_propensity net x j
              = Inr (factor_two net * real_of_int v1 * real_of_int v2 * rate r))
       \<and> (number_of_reactants r = 2 \<and> s1 = s2 \<and> vec_at x s1 = Inr v1 \<longrightarrow>
            compute_propensity net x j
              = Inr (factor_duplicate net * factor_two net * real_of_int v1
                       * real_of_int (v1 - 1) * rate r)
            \<and> (v1 = 0 \<or> v1 = 1 \<longrightarrow> compute_propensity net x j = Inr 0))"
  using assms by (auto simp: compute_propensity_def)

theorem compute_propensity_formula_witness:
  "compute_propensity scenario_B [4, 0] 0 = Inr 6
   \<and> compute_propensity scenario_B [1, 0] 0 = Inr 0
   \<and> compute_propensity scenario_B [4, 0] 1 = Inr 0
   \<and> compute_propensity scenario_B [2, 1] 1 = Inr (1/10)
   \<and> compute_propensity scenario_B [2, 1] 2 = Inr 3
   \<and> compute_propensity scenario_B [2, 5] 3 = Inr 20"
  using compute_propensity_formula [of scenario_B 0 "reactions scenario_B ! 0" 0 0 "[4, 0]" 4 0]
    compute_propensity_formula [of scenario_B 0 "reactions scenario_B ! 0" 0 0 "[1, 0]" 1 0]
    compute_propensity_formula [of scenario_B 1 "reactions scenario_B ! 1" 1 "-1" "[4, 0]" 0 0]
    compute_propensity_formula [of scenario_B 1 "reactions scenario_B ! 1" 1 "-1" "[2, 1]" 1 0]
    compute_propensity_formula [of scenario_B 2 "reactions scenario_B ! 2" "-1" "-1" "[2, 1]" 0 0]
    compute_propensity_formula [of scenario_B 3 "reactions scenario_B ! 3" 0 1 "[2, 5]" 2 5]
  by (simp add: scenario_B_def vec_at_def)

subsection \<open>The dependency list\<close>

lemma upt_le2: "n \<le> 2 \<Longrightarrow> [0..<n] = take n [0, Suc 0]"
proof -
  assume "n \<le> 2"
  then have "n = 0 \<or> n = 1 \<or> n = 2" by arith
  then show ?thesis by (auto simp: numeral_2_eq_2)
qed

lemma for_each_append:
  "for_each body (xs @ ys) s = and_then (for_each body xs s) (for_each body ys)"
  by (induction xs arbitrary: s) (auto split: sum.splits)

lemma match_reactant_loop:
  assumes "n \<le> 2" "l < 2"
  shows "for_each (match_reactant rj ri l) [0..<n] flag
           = Inr (flag \<or> [fst (reactants rj), snd (reactants rj)] ! l
                           \<in> set (take n [fst (reactants ri), snd (reactants ri)]))"
proof -
  from assms have "n = 0 \<or> n = 1 \<or> n = 2" "l = 0 \<or> l = 1" by arith+
  then show ?thesis
    by (auto simp: numeral_2_eq_2 match_reactant_def arr2_at_def)
qed

lemma match_product_loop:
  assumes "n \<le> 2" "l < 2"
  shows "for_each (match_product rj ri l) [0..<n] flag
           = Inr (flag \<or> [fst (reactants rj), snd (reactants rj)] ! l
                           \<in> set (take n [fst (products ri), snd (products ri)]))"
proof -
  from assms have "n = 0 \<or> n = 1 \<or> n = 2" "l = 0 \<or> l = 1" by arith+
  then show ?thesis
    by (auto simp: numeral_2_eq_2 match_product_def arr2_at_def)
qed

lemma flag_reactant_loop:
  assumes "unat (number_of_reactants ri) \<le> 2" "unat (number_of_products ri) \<le> 2" "l < 2"
  shows "flag_reactant rj ri l flag
           = Inr (flag \<or> [fst (reactants rj), snd (reactants rj)] ! l \<in> set (reactants_of ri)
                       \<or> [fst (reactants rj), snd (reactants rj)] ! l \<in> set (products_of ri))"
  using assms
  by (auto simp: flag_reactant_def match_reactant_loop match_product_loop
                 reactants_of_def products_of_def)

lemma dependency_flag_loop:
  assumes "unat (number_of_reactants ri) \<le> 2" "unat (number_of_products ri) \<le> 2" "n \<le> 2"
  shows "for_each (flag_reactant rj ri) [0..<n] flag
           = Inr (flag \<or> (\<exists>s \<in> set (take n [fst (reactants rj), snd (reactants rj)]).
                      s \<in> set (reactants_of ri) \<or> s \<in> set (products_of ri)))"
proof -
  from assms(3) have "n = 0 \<or> n = 1 \<or> n = 2" by arith
  then show ?thesis
    using assms(1,2)
    by (auto simp: numeral_2_eq_2 flag_reactant_loop)
qed

lemma dependency_flag_eq:
  assumes "well_formed net" "i < length (reactions net)" "0 \<le> j" "j < int (length (reactions net))"
  shows "dependency_flag net (int i) j
           = Inr (shares_species (reactions net ! i) (reactions net ! nat j))"
proof -
  have wi: "unat (number_of_reactants (reactions net ! i)) \<le> 2"
    using assms(1,2) by (simp add: well_formed_def)
  have "reactions net ! nat j \<in> set (reactions net)"
    using assms(3,4) by simp
  then have wj: "unat (number_of_reactants (reactions net ! nat j)) \<le> 2"
      "unat (number_of_products (reactions net ! nat j)) \<le> 2"
    using assms(1) by (simp_all add: well_formed_def)
  show ?thesis
    using assms(2-4)
    by (simp add: dependency_flag_def vec_at_def dependency_flag_loop [OF wj wi]
                  shares_species_def reactants_of_def)
qed

lemma count_dependent_loop:
  assumes "well_formed net" "0 \<le> j" "j < int (length (reactions net))"
    and "\<forall>i \<in> set is. i < length (reactions net)"
  shows "for_each (count_dependent net j) is c
           = Inr (c + int (length (filter (\<lambda>i. shares_species (reactions net ! i) (reactions net ! nat j)) is)))"
  using assms(4)
proof (induction "is" arbitrary: c)
  case Nil
  then show ?case by simp
next
  case (Cons i "is")
  then show ?case
    by (simp add: count_dependent_def dependency_flag_eq [OF assms(1) _ assms(2,3)])
qed

lemma count_dependent_all:
  assumes "well_formed net" "0 \<le> j" "j < int (length (reactions net))"
  shows "for_each (count_dependent net j) [0..<length (reactions net)] 0
           = Inr (int (length (Dep net j)))"
  using count_dependent_loop [OF assms, of "[0..<length (reactions net)]" 0]
  by (simp add: Dep_def)

lemma fill_dependents_loop:
  "well_formed net \<Longrightarrow> 0 \<le> j \<Longrightarrow> j < int (length (reactions net)) \<Longrightarrow>
         0 \<le> k \<Longrightarrow> 0 \<le> cur \<Longrightarrow> cur \<le> int (length (reactions net)) \<Longrightarrow>
         length deps = nat c \<Longrightarrow>
         c - k = int (length (filter (\<lambda>i. shares_species (reactions net ! i) (reactions net ! nat j))
                               [nat cur..<length (reactions net)])) \<Longrightarrow>
         fill_dependents net j c deps k cur
           = Inr (take (nat k) deps @
                  map int (filter (\<lambda>i. shares_species (reactions net ! i) (reactions net ! nat j))
                               [nat cur..<length (reactions net)]))"
proof (induction net j c deps k cur rule: fill_dependents.induct)
  case (1 net j c deps k cur)
  let ?P = "\<lambda>i. shares_species (reactions net ! i) (reactions net ! nat j)"
  let ?N = "length (reactions net)"
  note wf = "1.prems"(1-3)
  note pr = "1.prems"(4-8)
  show ?case
  proof (cases "k < c")
    case False
    have "0 \<le> c - k" using pr(5) by simp
    with False have ck: "c = k" by simp
    with pr(5) have "length (filter ?P [nat cur..<?N]) = 0" by simp
    then have "filter ?P [nat cur..<?N] = []" by simp
    moreover have "nat k = length deps" using ck pr(4) by simp
    ultimately have "filter ?P [nat cur..<?N] = []" and "nat k = length deps"
      by simp_all
    then show ?thesis using False
      by (subst fill_dependents.simps) simp
  next
    case True
    then have "0 < c - k" by simp
    then have "0 < int (length (filter ?P [nat cur..<?N]))"
      unfolding pr(5) .
    then have "filter ?P [nat cur..<?N] \<noteq> []" by simp
    then have lt: "nat cur < ?N" by (cases "nat cur < ?N") auto
    then have upt: "[nat cur..<?N] = nat cur # [nat (cur + 1)..<?N]"
      using pr(2) by (simp add: upt_conv_Cons nat_add_distrib)
    have flag: "dependency_flag net cur j = Inr (?P (nat cur))"
      using dependency_flag_eq [OF wf(1) lt wf(2,3)] pr(2) by simp
    show ?thesis
    proof (cases "?P (nat cur)")
      case pos: True
      have set_ok: "vec_set deps k cur = Inr (deps[nat k := cur])"
        using True pr by (simp add: vec_set_def)
      have "fill_dependents net j c (deps[nat k := cur]) (k + 1) (cur + 1)
              = Inr (take (nat (k + 1)) (deps[nat k := cur]) @ map int (filter ?P [nat (cur + 1)..<?N]))"
        using "1.IH"(1) [OF True flag pos set_ok wf] pr lt pos upt True
        by simp
      moreover have "take (nat (k + 1)) (deps[nat k := cur]) = take (nat k) deps @ [cur]"
        using True pr(1,4)
        by (simp add: nat_add_distrib take_Suc_conv_app_nth)
      ultimately show ?thesis
        using True flag pos set_ok upt pr(2)
        by (subst fill_dependents.simps) simp
    next
      case neg: False
      have "fill_dependents net j c deps k (cur + 1)
              = Inr (take (nat k) deps @ map int (filter ?P [nat (cur + 1)..<?N]))"
        using "1.IH"(2) [OF True flag neg wf] pr lt neg upt
        by simp
      then show ?thesis
        using True flag neg upt
        by (subst fill_dependents.simps) simp
    qed
  qed
qed

lemma compute_dependency_node_eq:
  assumes "well_formed net" "0 \<le> j" "j < int (length (reactions net))"
  shows "compute_dependency_node net j
           = Inr (net\<lparr>dependency_graph :=
                    (dependency_graph net)[nat j :=
                       (dependency_graph net ! nat j)\<lparr>dependents := Some (Dep net j)\<rparr>]\<rparr>)"
proof -
  let ?P = "\<lambda>i. shares_species (reactions net ! i) (reactions net ! nat j)"
  have len: "length (dependency_graph net) = length (reactions net)"
    using assms(1) by (simp add: well_formed_def)
  have "fill_dependents net j (int (length (Dep net j)))
          (replicate (length (Dep net j)) 0) 0 0
          = Inr (take (nat 0) (replicate (length (Dep net j)) 0) @
                 map int (filter ?P [nat 0..<length (reactions net)]))"
    by (rule fill_dependents_loop [OF assms]) (simp_all add: Dep_def)
  then have fill: "fill_dependents net j (int (length (Dep net j)))
          (replicate (length (Dep net j)) 0) 0 0 = Inr (Dep net j)"
    by (simp add: Dep_def)
  show ?thesis
    using assms(2,3) len
    by (simp add: compute_dependency_node_def vec_at_def vec_set_def
                  count_dependent_all [OF assms] fill)
qed

lemma decrement_loop:
  assumes "n \<le> 2" "for_each (decrement_at a) [0..<n] x = Inr x'"
  shows "length x' = length x \<and> (\<forall>s. s \<notin> set (take n [fst a, snd a]) \<longrightarrow> vec_at x' s = vec_at x s)"
proof -
  from assms(1) have "n = 0 \<or> n = 1 \<or> n = 2" by arith
  then show ?thesis
    using assms(2)
    by (auto simp: numeral_2_eq_2 decrement_at_def arr2_at_def vec_at_def vec_set_def
             split: if_splits sum.splits)
qed

lemma increment_loop:
  assumes "n \<le> 2" "for_each (increment_at a) [0..<n] x = Inr x'"
  shows "length x' = length x \<and> (\<forall>s. s \<notin> set (take n [fst a, snd a]) \<longrightarrow> vec_at x' s = vec_at x s)"
proof -
  from assms(1) have "n = 0 \<or> n = 1 \<or> n = 2" by arith
  then show ?thesis
    using assms(2)
    by (auto simp: numeral_2_eq_2 increment_at_def arr2_at_def vec_at_def vec_set_def
             split: if_splits sum.splits)
qed

lemma update_state_frame:
  assumes "well_formed net" "update_state net x j = Inr x'"
    and "s \<notin> set (reactants_of (reactions net ! nat j))"
    and "s \<notin> set (products_of (reactions net ! nat j))"
  shows "vec_at x' s = vec_at x s"
proof -
  from assms(2) obtain x1 where j: "0 \<le> j" "j < int (length (reactions net))"
    and d: "for_each (decrement_at (reactants (reactions net ! nat j)))
              [0..<unat (number_of_reactants (reactions net ! nat j))] x = Inr x1"
    and i: "for_each (increment_at (products (reactions net ! nat j)))
              [0..<unat (number_of_products (reactions net ! nat j))] x1 = Inr x'"
    by (auto simp: update_state_def and_then_eq_Inr vec_at_eq_Inr)
  have "reactions net ! nat j \<in> set (reactions net)" using j by simp
  then have w: "unat (number_of_reactants (reactions net ! nat j)) \<le> 2"
      "unat (number_of_products (reactions net ! nat j)) \<le> 2"
    using assms(1) by (simp_all add: well_formed_def)
  have "vec_at x1 s = vec_at x s"
    using decrement_loop [OF w(1) d] assms(3) by (simp add: reactants_of_def)
  moreover have "vec_at x' s = vec_at x1 s"
    using increment_loop [OF w(2) i] assms(4) by (simp add: products_of_def)
  ultimately show ?thesis by simp
qed

lemma compute_propensity_frame:
  assumes "\<forall>s \<in> set (reactants_of (reactions net ! nat i)). vec_at x' s = vec_at x s"
  shows "compute_propensity net x' i = compute_propensity net x i"
proof (cases "0 \<le> i \<and> i < int (length (reactions net))")
  case False
  then show ?thesis by (auto simp: compute_propensity_def vec_at_def)
next
  case True
  let ?r = "reactions net ! nat i"
  have r: "vec_at (reactions net) i = Inr ?r" using True by (simp add: vec_at_def)
  consider "number_of_reactants ?r = 0" | "number_of_reactants ?r = 1"
    | "number_of_reactants ?r \<noteq> 0" "number_of_reactants ?r \<noteq> 1" by blast
  then show ?thesis
  proof cases
    case 1
    then show ?thesis by (simp add: compute_propensity_def r)
  next
    case 2
    then have "fst (reactants ?r) \<in> set (reactants_of ?r)"
      by (simp add: reactants_of_def)
    with assms have "vec_at x' (fst (reactants ?r)) = vec_at x (fst (reactants ?r))" by blast
    with 2 show ?thesis by (simp add: compute_propensity_def r)
  next
    case 3
    then have "unat (number_of_reactants ?r) \<noteq> unat (0 :: 8 word)"
      "unat (number_of_reactants ?r) \<noteq> unat (1 :: 8 word)"
      by (simp_all only: word_unat_eq_iff [symmetric] not_False_eq_True)
    then have "unat (number_of_reactants ?r) \<noteq> 0" "unat (number_of_reactants ?r) \<noteq> 1"
      by simp_all
    then have "2 \<le> unat (number_of_reactants ?r)" by arith
    then have "fst (reactants ?r) \<in> set (reactants_of ?r)" "snd (reactants ?r) \<in> set (reactants_of ?r)"
      by (simp_all add: reactants_of_def)
    with assms have "vec_at x' (fst (reactants ?r)) = vec_at x (fst (reactants ?r))"
      "vec_at x' (snd (reactants ?r)) = vec_at x (snd (reactants ?r))" by blast+
    with 3 show ?thesis by (simp add: compute_propensity_def r)
  qed
qed

lemma propensity_changes_only_in_Dep:
  assumes "well_formed net" "update_state net x j = Inr x'"
    and "0 \<le> i" "i < int (length (reactions net))"
    and "compute_propensity net x' i \<noteq> compute_propensity net x i"
  shows "i \<in> set (Dep net j)"
proof (rule ccontr)
  assume "i \<notin> set (Dep net j)"
  moreover have "i = int (nat i)" using assms(3) by simp
  ultimately have "nat i \<notin> set (filter (\<lambda>i. shares_species (reactions net ! i) (reactions net ! nat j))
                  [0..<length (reactions net)])"
    unfolding Dep_def by (metis imageI set_map)
  then have "\<not> shares_species (reactions net ! nat i) (reactions net ! nat j)"
    using assms(3,4) by simp
  then have "\<forall>s \<in> set (reactants_of (reactions net ! nat i)). vec_at x' s = vec_at x s"
    using update_state_frame [OF assms(1,2)] by (auto simp: shares_species_def)
  then have "compute_propensity net x' i = compute_propensity net x i"
    by (rule compute_propensity_frame)
  with assms(5) show False by simp
qed

lemma get_dependency_node_step:
  assumes "well_formed net" "0 \<le> j" "j < int (length (reactions net))"
  shows "get_dependency_node net j
           = Inr (dependents (node_after net j (dependency_graph net ! nat j)),
                  net\<lparr>dependency_graph :=
                        (dependency_graph net)[nat j := node_after net j (dependency_graph net ! nat j)]\<rparr>)"
proof -
  have len: "length (dependency_graph net) = length (reactions net)"
    using assms(1) by (simp add: well_formed_def)
  show ?thesis
    using assms(2,3) len
    by (simp add: get_dependency_node_def vec_at_def vec_set_def node_after_def
                  compute_dependency_node_eq [OF assms])
qed

lemma well_formed_graph_update:
  "well_formed net \<Longrightarrow> well_formed (net\<lparr>dependency_graph := (dependency_graph net)[k := node]\<rparr>)"
  by (simp add: well_formed_def)

lemma Dep_graph_update [simp]: "Dep (net\<lparr>dependency_graph := g\<rparr>) j = Dep net j"
  by (simp add: Dep_def)

lemma calls_state:
  assumes "0 \<le> j" "j < int (length (reactions net0))"
  shows "well_formed net \<Longrightarrow> reactions net = reactions net0 \<Longrightarrow>
         dependency_threshold net = dependency_threshold net0 \<Longrightarrow>
         \<forall>k \<in> set js. 0 \<le> k \<and> k < int (length (reactions net0)) \<Longrightarrow>
         \<exists>net'. for_each call_get_dependency_node js net = Inr net'
           \<and> well_formed net' \<and> reactions net' = reactions net0
           \<and> dependency_threshold net' = dependency_threshold net0
           \<and> dependency_graph net' ! nat j
               = ((node_after net0 j) ^^ (count_list js j)) (dependency_graph net ! nat j)"
proof (induction js arbitrary: net)
  case Nil
  then show ?case by simp
next
  case (Cons k js)
  let ?net1 = "net\<lparr>dependency_graph :=
                  (dependency_graph net)[nat k := node_after net k (dependency_graph net ! nat k)]\<rparr>"
  have k: "0 \<le> k" "k < int (length (reactions net))" using Cons.prems by simp_all
  have step: "call_get_dependency_node k net = Inr ?net1"
    using get_dependency_node_step [OF Cons.prems(1) k]
    by (simp add: call_get_dependency_node_def)
  have wf1: "well_formed ?net1" using Cons.prems(1) by (rule well_formed_graph_update)
  from Cons.IH [OF wf1] Cons.prems obtain net' where
    run: "for_each call_get_dependency_node js ?net1 = Inr net'"
    and rest: "well_formed net'" "reactions net' = reactions net0"
      "dependency_threshold net' = dependency_threshold net0"
    and node: "dependency_graph net' ! nat j
               = ((node_after net0 j) ^^ (count_list js j)) (dependency_graph ?net1 ! nat j)"
    by auto
  have len: "length (dependency_graph net) = length (reactions net)"
    using Cons.prems(1) by (simp add: well_formed_def)
  have same: "node_after net j = node_after net0 j"
    using Cons.prems(2,3) by (auto simp: node_after_def Dep_def fun_eq_iff)
  have "dependency_graph ?net1 ! nat j
          = (if k = j then node_after net0 j (dependency_graph net ! nat j)
             else dependency_graph net ! nat j)"
    using k assms len Cons.prems(2) same by (auto simp: nth_list_update)
  with node have "dependency_graph net' ! nat j
       = ((node_after net0 j) ^^ (count_list (k # js) j)) (dependency_graph net ! nat j)"
    by (simp add: funpow_swap1)
  with step run rest show ?case by simp
qed

lemma node_after_iterate:
  "((node_after net j) ^^ n) new_DependentsNode
     = \<lparr>dependents = (if 1 \<le> n \<and> dependency_threshold net + 1 \<le> int n then Some (Dep net j) else None),
        number_of_occurrences = int n\<rparr>"
  by (induction n) (auto simp: node_after_def new_DependentsNode_def)

lemma node_after_keeps:
  "dependents node = Some d \<Longrightarrow> dependents (((node_after net j) ^^ n) node) = Some d"
  by (induction n) (auto simp: node_after_def)

lemma scenario_C_well_formed: "well_formed (scenario_C t)"
  by (simp add: well_formed_def scenario_C_def)

lemma scenario_C_fresh: "fresh_graph (scenario_C t)"
  by (simp add: fresh_graph_def scenario_C_def numeral_eq_Suc)

lemma scenario_C_Dep: "Dep (scenario_C t) 2 = [0, 1, 2, 3]"
  by (simp add: Dep_def scenario_C_def shares_species_def reactants_of_def products_of_def upt_rec)

subsection \<open>Laziness of the dependency graph\<close>

text \<open>
  Claim C4, as the code has it. Start from a freshly loaded network (every node absent,
  counter 0) and let \<open>get_dependency_node\<close> be called for the indices \<open>js\<close> in turn.
  Then every call returns, the counter of node \<open>j\<close> is the number of calls made for
  \<open>j\<close>, the list of node \<open>j\<close> is present exactly when that number is at least
  \<open>max dependency_threshold 0 + 1\<close>, and a list that is present is the same list after
  any further calls: it is stored once and never replaced or removed.
\<close>

theorem get_dependency_node_lazy:
  assumes "well_formed net" "fresh_graph net"
    and "\<forall>k \<in> set js. 0 \<le> k \<and> k < int (length (reactions net))"
    and "0 \<le> j" "j < int (length (reactions net))"
  shows "\<exists>net'. for_each call_get_dependency_node js net = Inr net'
           \<and> number_of_occurrences (dependency_graph net' ! nat j) = int (count_list js j)
           \<and> (dependents (dependency_graph net' ! nat j) \<noteq> None
                \<longleftrightarrow> max (dependency_threshold net) 0 + 1 \<le> int (count_list js j))
           \<and> (\<forall>ks d. dependents (dependency_graph net' ! nat j) = Some d
                 \<and> (\<forall>k \<in> set ks. 0 \<le> k \<and> k < int (length (reactions net)))
                 \<longrightarrow> (\<exists>net''. for_each call_get_dependency_node ks net' = Inr net''
                        \<and> dependents (dependency_graph net'' ! nat j) = Some d))"
proof -
  from calls_state [OF assms(4,5) assms(1) refl refl assms(3)] obtain net' where
    run: "for_each call_get_dependency_node js net = Inr net'"
    and wf': "well_formed net'" and r': "reactions net' = reactions net"
    and t': "dependency_threshold net' = dependency_threshold net"
    and node: "dependency_graph net' ! nat j
                 = ((node_after net j) ^^ (count_list js j)) (dependency_graph net ! nat j)"
    by blast
  have "dependency_graph net ! nat j = new_DependentsNode"
    using assms(2,4,5) by (simp add: fresh_graph_def)
  with node have node': "dependency_graph net' ! nat j
      = \<lparr>dependents = (if 1 \<le> count_list js j \<and> dependency_threshold net + 1 \<le> int (count_list js j)
                       then Some (Dep net j) else None),
         number_of_occurrences = int (count_list js j)\<rparr>"
    by (simp add: node_after_iterate)
  have later: "\<exists>net''. for_each call_get_dependency_node ks net' = Inr net''
                 \<and> dependents (dependency_graph net'' ! nat j) = Some d"
    if d: "dependents (dependency_graph net' ! nat j) = Some d"
      and ks: "\<forall>k \<in> set ks. 0 \<le> k \<and> k < int (length (reactions net))" for ks d
  proof -
    from calls_state [OF assms(4,5) wf' r' t' ks] obtain net'' where
      "for_each call_get_dependency_node ks net' = Inr net''"
      "dependency_graph net'' ! nat j
         = ((node_after net j) ^^ (count_list ks j)) (dependency_graph net' ! nat j)"
      by blast
    then show ?thesis using node_after_keeps [OF d] by auto
  qed
  show ?thesis
  proof (intro exI conjI)
    show "for_each call_get_dependency_node js net = Inr net'" by (rule run)
    show "number_of_occurrences (dependency_graph net' ! nat j) = int (count_list js j)"
      by (simp add: node')
    show "dependents (dependency_graph net' ! nat j) \<noteq> None
            \<longleftrightarrow> max (dependency_threshold net) 0 + 1 \<le> int (count_list js j)"
      by (auto simp: node')
    show "\<forall>ks d. dependents (dependency_graph net' ! nat j) = Some d
             \<and> (\<forall>k \<in> set ks. 0 \<le> k \<and> k < int (length (reactions net)))
             \<longrightarrow> (\<exists>net''. for_each call_get_dependency_node ks net' = Inr net''
                    \<and> dependents (dependency_graph net'' ! nat j) = Some d)"
      using later by blast
  qed
qed

theorem get_dependency_node_lazy_witness:
  "\<exists>net'. for_each call_get_dependency_node [2, 0, 2, 2, 2] (scenario_C 3) = Inr net'
         \<and> number_of_occurrences (dependency_graph net' ! nat 2) = 4
         \<and> dependents (dependency_graph net' ! nat 2) \<noteq> None
         \<and> number_of_occurrences (dependency_graph net' ! nat 0) = 1
         \<and> dependents (dependency_graph net' ! nat 0) = None"
proof -
  have r: "\<forall>k \<in> set [2, 0, 2, 2, 2]. 0 \<le> k \<and> k < int (length (reactions (scenario_C 3)))"
    "(0::int) \<le> 2" "2 < int (length (reactions (scenario_C 3)))"
    "(0::int) \<le> 0" "0 < int (length (reactions (scenario_C 3)))"
    by (simp_all add: scenario_C_def)
  from get_dependency_node_lazy [OF scenario_C_well_formed scenario_C_fresh r(1,2,3)]
  obtain net' where
    "for_each call_get_dependency_node [2, 0, 2, 2, 2] (scenario_C 3) = Inr net'"
    "number_of_occurrences (dependency_graph net' ! nat 2) = int (count_list [2, 0, 2, 2, 2] (2::int))"
    "dependents (dependency_graph net' ! nat 2) \<noteq> None
       \<longleftrightarrow> max (dependency_threshold (scenario_C 3)) 0 + 1 \<le> int (count_list [2, 0, 2, 2, 2] (2::int))"
    by blast
  moreover from get_dependency_node_lazy [OF scenario_C_well_formed scenario_C_fresh r(1,4,5)]
  obtain net'' where
    "for_each call_get_dependency_node [2, 0, 2, 2, 2] (scenario_C 3) = Inr net''"
    "number_of_occurrences (dependency_graph net'' ! nat 0) = int (count_list [2, 0, 2, 2, 2] (0::int))"
    "dependents (dependency_graph net'' ! nat 0) \<noteq> None
       \<longleftrightarrow> max (dependency_threshold (scenario_C 3)) 0 + 1 \<le> int (count_list [2, 0, 2, 2, 2] (0::int))"
    by blast
  ultimately show ?thesis by (auto simp: scenario_C_def)
qed

text \<open>
  As stated, with \<open>dependency_threshold + 1\<close> calls, the equivalence fails for a negative
  threshold before the first call: the node is created absent, while the number of
  calls, 0, is already at least \<open>dependency_threshold + 1\<close>.
\<close>

theorem get_dependency_node_threshold_counterexample:
  "well_formed (scenario_C (- 1)) \<and> fresh_graph (scenario_C (- 1))
   \<and> for_each call_get_dependency_node [] (scenario_C (- 1)) = Inr (scenario_C (- 1))
   \<and> \<not> (dependents (dependency_graph (scenario_C (- 1)) ! nat 2) \<noteq> None
           \<longleftrightarrow> dependency_threshold (scenario_C (- 1)) + 1 \<le> int (count_list [] (2::int)))"
  by (simp add: scenario_C_well_formed scenario_C_fresh)
     (simp add: scenario_C_def new_DependentsNode_def)

subsection \<open>Contents of the dependency list\<close>

text \<open>
  Claim C5. In a network whose reactions have at most two reactants and two products,
  \<open>compute_dependency_node j\<close> returns and stores the list \<open>Dep net j\<close>: the indices
  \<open>i\<close> of the reactions with a reactant among the reactants or products of reaction
  \<open>j\<close>, each once and in increasing order. The list contains every reaction whose
  propensity differs between a st \<open>x\<close> and \<open>update_state x j\<close>, for every st on
  which \<open>update_state\<close> returns, reachable or not.
\<close>

theorem compute_dependency_node_Dep:
  assumes "well_formed net" "0 \<le> j" "j < int (length (reactions net))"
  shows "(\<exists>net'. compute_dependency_node net j = Inr net'
            \<and> dependents (dependency_graph net' ! nat j) = Some (Dep net j))
       \<and> sorted (Dep net j) \<and> distinct (Dep net j)
       \<and> (\<forall>i. i \<in> set (Dep net j) \<longleftrightarrow>
             0 \<le> i \<and> i < int (length (reactions net))
             \<and> shares_species (reactions net ! nat i) (reactions net ! nat j))
       \<and> (\<forall>x x' i. update_state net x j = Inr x' \<and> 0 \<le> i \<and> i < int (length (reactions net))
             \<and> compute_propensity net x' i \<noteq> compute_propensity net x i
             \<longrightarrow> i \<in> set (Dep net j))"
proof (intro conjI)
  have len: "length (dependency_graph net) = length (reactions net)"
    using assms(1) by (simp add: well_formed_def)
  show "\<exists>net'. compute_dependency_node net j = Inr net'
            \<and> dependents (dependency_graph net' ! nat j) = Some (Dep net j)"
    using assms(2,3) len by (simp add: compute_dependency_node_eq [OF assms])
  show "sorted (Dep net j)"
    by (simp add: Dep_def sorted_map sorted_wrt_filter)
  show "distinct (Dep net j)"
    by (simp add: Dep_def distinct_map)
  show "\<forall>i. i \<in> set (Dep net j) \<longleftrightarrow>
             0 \<le> i \<and> i < int (length (reactions net))
             \<and> shares_species (reactions net ! nat i) (reactions net ! nat j)"
  proof (intro allI iffI)
    fix i assume "i \<in> set (Dep net j)"
    then show "0 \<le> i \<and> i < int (length (reactions net))
             \<and> shares_species (reactions net ! nat i) (reactions net ! nat j)"
      by (auto simp: Dep_def)
  next
    fix i assume a: "0 \<le> i \<and> i < int (length (reactions net))
             \<and> shares_species (reactions net ! nat i) (reactions net ! nat j)"
    then have "nat i \<in> set (filter (\<lambda>i. shares_species (reactions net ! i) (reactions net ! nat j))
                  [0..<length (reactions net)])" by auto
    then have "int (nat i) \<in> set (Dep net j)" unfolding Dep_def by (metis imageI set_map)
    with a show "i \<in> set (Dep net j)" by simp
  qed
  show "\<forall>x x' i. update_state net x j = Inr x' \<and> 0 \<le> i \<and> i < int (length (reactions net))
             \<and> compute_propensity net x' i \<noteq> compute_propensity net x i
             \<longrightarrow> i \<in> set (Dep net j)"
    using propensity_changes_only_in_Dep [OF assms(1)] by blast
qed

theorem compute_dependency_node_Dep_witness:
  "(\<exists>net'. compute_dependency_node (scenario_C 0) 2 = Inr net'
            \<and> dependents (dependency_graph net' ! nat 2) = Some [0, 1, 2, 3])
   \<and> sorted [0, 1, 2, 3 :: int] \<and> distinct [0, 1, 2, 3 :: int]
   \<and> update_state (scenario_C 0) [5, 5, 5] 2 = Inr [4, 4, 6]
   \<and> compute_propensity (scenario_C 0) [4, 4, 6] 4 = compute_propensity (scenario_C 0) [5, 5, 5] 4"
proof -
  have r: "(0::int) \<le> 2" "2 < int (length (reactions (scenario_C 0)))"
    by (simp_all add: scenario_C_def)
  have u: "update_state (scenario_C 0) [5, 5, 5] 2 = Inr [4, 4, 6]"
    by (simp add: update_state_def scenario_C_def vec_at_def vec_set_def
                  decrement_at_def increment_at_def arr2_at_def upt_rec)
  note t = compute_dependency_node_Dep [OF scenario_C_well_formed r]
  have stored: "\<exists>net'. compute_dependency_node (scenario_C 0) 2 = Inr net'
            \<and> dependents (dependency_graph net' ! nat 2) = Some [0, 1, 2, 3]"
    using t [THEN conjunct1] by (simp add: scenario_C_Dep)
  have ordered: "sorted [0, 1, 2, 3 :: int]" "distinct [0, 1, 2, 3 :: int]"
    using t [THEN conjunct2, THEN conjunct1] t [THEN conjunct2, THEN conjunct2, THEN conjunct1]
    by (simp_all add: scenario_C_Dep)
  have "compute_propensity (scenario_C 0) [4, 4, 6] 4 = compute_propensity (scenario_C 0) [5, 5, 5] 4"
  proof (rule ccontr)
    assume "compute_propensity (scenario_C 0) [4, 4, 6] 4 \<noteq> compute_propensity (scenario_C 0) [5, 5, 5] 4"
    moreover have "(0::int) \<le> 4" "4 < int (length (reactions (scenario_C 0)))"
      by (simp_all add: scenario_C_def)
    ultimately have "4 \<in> set (Dep (scenario_C 0) 2)"
      using t [THEN conjunct2, THEN conjunct2, THEN conjunct2, THEN conjunct2] u by blast
    then show False by (simp add: scenario_C_Dep)
  qed
  with stored ordered u show ?thesis by blast
qed

subsection \<open>Propensity propagation\<close>

lemma compute_propensity_total:
  assumes "fits_state net st" "0 \<le> i" "i < int (length (reactions net))"
  shows "\<exists>p. compute_propensity net st i = Inr p"
proof -
  let ?r = "reactions net ! nat i"
  have r: "vec_at (reactions net) i = Inr ?r" using assms(2,3) by (simp add: vec_at_def)
  have mem: "?r \<in> set (reactions net)" using assms(2,3) by simp
  consider "number_of_reactants ?r = 0" | "number_of_reactants ?r = 1"
    | "number_of_reactants ?r \<noteq> 0" "number_of_reactants ?r \<noteq> 1" by blast
  then show ?thesis
  proof cases
    case 1
    then show ?thesis by (simp add: compute_propensity_def r)
  next
    case 2
    then have "fst (reactants ?r) \<in> set (reactants_of ?r)"
      by (simp add: reactants_of_def)
    with assms(1) mem have "0 \<le> fst (reactants ?r) \<and> fst (reactants ?r) < int (length st)"
      unfolding fits_state_def by blast
    with 2 show ?thesis by (simp add: compute_propensity_def r vec_at_in)
  next
    case 3
    then have "unat (number_of_reactants ?r) \<noteq> unat (0 :: 8 word)"
      "unat (number_of_reactants ?r) \<noteq> unat (1 :: 8 word)"
      by (simp_all only: word_unat_eq_iff [symmetric] not_False_eq_True)
    then have "2 \<le> unat (number_of_reactants ?r)" by simp
    then have "fst (reactants ?r) \<in> set (reactants_of ?r)" "snd (reactants ?r) \<in> set (reactants_of ?r)"
      by (simp_all add: reactants_of_def)
    with assms(1) mem have "0 \<le> fst (reactants ?r) \<and> fst (reactants ?r) < int (length st)"
      "0 \<le> snd (reactants ?r) \<and> snd (reactants ?r) < int (length st)"
      unfolding fits_state_def by blast+
    with 3 show ?thesis by (simp add: compute_propensity_def r vec_at_in)
  qed
qed

lemma emit_update_loop:
  assumes "\<forall>i \<in> set is. \<exists>p. compute_propensity net st i = Inr p"
  shows "\<exists>emitted. for_each (emit_update net st) is acc = Inr (acc @ emitted)
           \<and> map index emitted = is
           \<and> (\<forall>u \<in> set emitted. compute_propensity net st (index u) = Inr (propensity u))"
  using assms
proof (induction "is" arbitrary: acc)
  case Nil
  then show ?case by simp
next
  case (Cons i "is")
  then obtain p where p: "compute_propensity net st i = Inr p" by auto
  from Cons.IH [of "acc @ [\<lparr>index = i, propensity = p\<rparr>]"] Cons.prems obtain emitted where
    "for_each (emit_update net st) is (acc @ [\<lparr>index = i, propensity = p\<rparr>])
       = Inr ((acc @ [\<lparr>index = i, propensity = p\<rparr>]) @ emitted)"
    "map index emitted = is"
    "\<forall>u \<in> set emitted. compute_propensity net st (index u) = Inr (propensity u)"
    by auto
  moreover have "emit_update net st i acc = Inr (acc @ [\<lparr>index = i, propensity = p\<rparr>])"
    using p by (simp add: emit_update_def)
  ultimately show ?case
    using p
    by (intro exI [of _ "\<lparr>index = i, propensity = p\<rparr> # emitted"]) simp
qed

lemma compute_propensity_graph_update [simp]:
  "compute_propensity (net\<lparr>dependency_graph := g\<rparr>) st i = compute_propensity net st i"
  by (simp add: compute_propensity_def cong: if_cong)

text \<open>
  Claim C6. \<open>update_propensities\<close> first calls \<open>get_dependency_node\<close> for the fired
  reaction. The updates it passes to the callback are, in order, one
  \<open>Update{i, compute_propensity(x, i)}\<close> for each \<open>i\<close> of the list when the list is present
  after that call, and one for every reaction index \<open>0, ..., N - 1\<close> when it is absent.
  The hypotheses say that every index read is in range: reactions have at most two
  reactants and products, their reactant species are positions of the st, and lists
  already stored hold reaction indices.
\<close>

theorem update_propensities_emits:
  assumes "well_formed net" "stored_in_range net" "fits_state net st"
    and "0 \<le> next_reaction" "next_reaction < int (length (reactions net))"
  shows "\<exists>maybe net1 emitted.
           get_dependency_node net next_reaction = Inr (maybe, net1)
           \<and> update_propensities net st next_reaction = Inr (emitted, net1)
           \<and> map index emitted
               = (case maybe of Some deps \<Rightarrow> deps | None \<Rightarrow> map int [0..<length (reactions net)])
           \<and> (\<forall>u \<in> set emitted. compute_propensity net1 st (index u) = Inr (propensity u))"
proof -
  let ?node = "node_after net next_reaction (dependency_graph net ! nat next_reaction)"
  let ?net1 = "net\<lparr>dependency_graph := (dependency_graph net)[nat next_reaction := ?node]\<rparr>"
  have step: "get_dependency_node net next_reaction = Inr (dependents ?node, ?net1)"
    by (rule get_dependency_node_step [OF assms(1,4,5)])
  have len: "length (dependency_graph net) = length (reactions net)"
    using assms(1) by (simp add: well_formed_def)
  have all: "\<forall>i \<in> set (map int [0..<length (reactions net)]).
               \<exists>p. compute_propensity net st i = Inr p"
    using compute_propensity_total [OF assms(3)] by auto
  show ?thesis
  proof (cases "dependents ?node")
    case None
    from emit_update_loop [OF all, of "[]"] obtain emitted where
      "for_each (emit_update net st) (map int [0..<length (reactions net)]) [] = Inr emitted"
      "map index emitted = map int [0..<length (reactions net)]"
      "\<forall>u \<in> set emitted. compute_propensity net st (index u) = Inr (propensity u)"
      by auto
    then show ?thesis
      using step None
      by (intro exI [of _ "dependents ?node"] exI [of _ ?net1] exI [of _ emitted])
         (simp add: update_propensities_def emit_update_def [abs_def] cong: if_cong)
  next
    case (Some deps)
    have "\<forall>i \<in> set deps. 0 \<le> i \<and> i < int (length (reactions net))"
    proof (cases "dependents (dependency_graph net ! nat next_reaction)")
      case None
      with Some have "deps = Dep net next_reaction"
        by (auto simp: node_after_def split: if_splits)
      then show ?thesis by (auto simp: Dep_def)
    next
      case old: (Some d)
      with Some have "deps = d" by (simp add: node_after_def)
      moreover have "dependency_graph net ! nat next_reaction \<in> set (dependency_graph net)"
        using assms(4,5) len by simp
      ultimately show ?thesis using assms(2) old unfolding stored_in_range_def by blast
    qed
    then have "\<forall>i \<in> set deps. \<exists>p. compute_propensity net st i = Inr p"
      using compute_propensity_total [OF assms(3)] by blast
    from emit_update_loop [OF this, of "[]"] obtain emitted where
      "for_each (emit_update net st) deps [] = Inr emitted"
      "map index emitted = deps"
      "\<forall>u \<in> set emitted. compute_propensity net st (index u) = Inr (propensity u)"
      by auto
    then show ?thesis
      using step Some
      by (intro exI [of _ "dependents ?node"] exI [of _ ?net1] exI [of _ emitted])
         (simp add: update_propensities_def emit_update_def [abs_def] cong: if_cong)
  qed
qed

theorem update_propensities_emits_witness:
  "(\<exists>net1 emitted.
      get_dependency_node (scenario_C 3) 2 = Inr (None, net1)
      \<and> update_propensities (scenario_C 3) [5, 5, 5] 2 = Inr (emitted, net1)
      \<and> map index emitted = [0, 1, 2, 3, 4])
   \<and> (\<exists>net1 emitted.
      get_dependency_node (scenario_C 0) 2 = Inr (Some [0, 1, 2, 3], net1)
      \<and> update_propensities (scenario_C 0) [5, 5, 5] 2 = Inr (emitted, net1)
      \<and> map index emitted = [0, 1, 2, 3])"
proof -
  have h1: "stored_in_range (scenario_C t)" for t
    by (simp add: stored_in_range_def scenario_C_def new_DependentsNode_def)
  have h2: "fits_state (scenario_C t) [5, 5, 5]"
    "(0::int) \<le> 2" "2 < int (length (reactions (scenario_C t)))" for t
    by (simp_all add: fits_state_def scenario_C_def reactants_of_def)
  note h = h1 h2
  have g3: "get_dependency_node (scenario_C 3) 2
              = Inr (None, (scenario_C 3)\<lparr>dependency_graph :=
                       (dependency_graph (scenario_C 3))[nat 2 :=
                          node_after (scenario_C 3) 2 (dependency_graph (scenario_C 3) ! nat 2)]\<rparr>)"
    using get_dependency_node_step [OF scenario_C_well_formed h(3,4), of 3]
    by (simp add: node_after_def scenario_C_def new_DependentsNode_def numeral_eq_Suc)
  have g0: "get_dependency_node (scenario_C 0) 2
              = Inr (Some [0, 1, 2, 3], (scenario_C 0)\<lparr>dependency_graph :=
                       (dependency_graph (scenario_C 0))[nat 2 :=
                          node_after (scenario_C 0) 2 (dependency_graph (scenario_C 0) ! nat 2)]\<rparr>)"
    using get_dependency_node_step [OF scenario_C_well_formed h(3,4), of 0]
    by (simp add: node_after_def scenario_C_Dep)
       (simp add: scenario_C_def new_DependentsNode_def numeral_eq_Suc)
  have n: "[0..<length (reactions (scenario_C 3))] = [0, 1, 2, 3, 4]"
    by (simp add: scenario_C_def upt_rec)
  show ?thesis
    using update_propensities_emits [OF scenario_C_well_formed h, of 3]
      update_propensities_emits [OF scenario_C_well_formed h, of 0]
    by (auto simp: g3 g0 n)
qed
section \<open>Properties of the simulation driver\<close>

text \<open>
  Claim C8. When the solver yields no event, \<open>execute_step\<close> returns stop and changes
  nothing but the solver. When it yields an event, the step index is inside the history
  and both calls into the model return, \<open>execute_step\<close> adds \<open>dt\<close> to \<open>time\<close>, writes
  the history element at index \<open>step\<close>, increments \<open>step\<close>, updates the state, then the
  propensities (passing each emitted update to the solver), and returns stop exactly
  when \<open>time_cutoff \<le> time\<close>. With \<open>time = 0\<close>, \<open>time_cutoff = 0\<close> and \<open>0 < dt\<close> the
  step is taken, it returns stop, and \<open>execute_steps\<close> ends after this one firing.
\<close>

theorem execute_step_behaviour:
  "(Solver_event ops (solver sim) = (None, solver1) \<longrightarrow>
      execute_step ops sim = Inr (False, sim\<lparr>solver := solver1\<rparr>))
   \<and> (Solver_event ops (solver sim) = (Some event, solver1)
       \<and> 0 \<le> step sim \<and> step sim < int (length (history sim))
       \<and> Model_update_state ops (model sim) (state sim) (event_index event) = Inr state1
       \<and> Model_update_propensities ops (model sim) state1 (event_index event) = Inr (emitted, model1)
       \<longrightarrow>
      execute_step ops sim
        = Inr (\<not> (time_cutoff sim \<le> time sim + dt event),
               sim\<lparr>model := model1,
                   state := state1,
                   time := time sim + dt event,
                   step := step sim + 1,
                   solver := fold (Solver_update ops) emitted solver1,
                   history := (history sim)[nat (step sim) :=
                     \<lparr>reaction_id = event_index event, history_time = time sim + dt event\<rparr>]\<rparr>)
      \<and> (time sim = 0 \<and> time_cutoff sim = 0 \<and> 0 < dt event \<longrightarrow>
           (\<exists>sim'. execute_step ops sim = Inr (False, sim')
                  \<and> execute_steps ops step_cutoff sim = Inr sim'
                  \<and> step sim' = step sim + 1 \<and> time sim' = dt event
                  \<and> history sim' = (history sim)[nat (step sim) :=
                       \<lparr>reaction_id = event_index event, history_time = dt event\<rparr>])))"
proof (intro conjI impI)
  assume "Solver_event ops (solver sim) = (None, solver1)"
  then show "execute_step ops sim = Inr (False, sim\<lparr>solver := solver1\<rparr>)"
    by (simp add: execute_step_def)
next
  assume a: "Solver_event ops (solver sim) = (Some event, solver1)
       \<and> 0 \<le> step sim \<and> step sim < int (length (history sim))
       \<and> Model_update_state ops (model sim) (state sim) (event_index event) = Inr state1
       \<and> Model_update_propensities ops (model sim) state1 (event_index event) = Inr (emitted, model1)"
  then show s: "execute_step ops sim
        = Inr (\<not> (time_cutoff sim \<le> time sim + dt event),
               sim\<lparr>model := model1,
                   state := state1,
                   time := time sim + dt event,
                   step := step sim + 1,
                   solver := fold (Solver_update ops) emitted solver1,
                   history := (history sim)[nat (step sim) :=
                     \<lparr>reaction_id = event_index event, history_time = time sim + dt event\<rparr>]\<rparr>)"
    by (simp add: execute_step_def Let_def)
  assume "time sim = 0 \<and> time_cutoff sim = 0 \<and> 0 < dt event"
  with s show "\<exists>sim'. execute_step ops sim = Inr (False, sim')
                  \<and> execute_steps ops step_cutoff sim = Inr sim'
                  \<and> step sim' = step sim + 1 \<and> time sim' = dt event
                  \<and> history sim' = (history sim)[nat (step sim) :=
                       \<lparr>reaction_id = event_index event, history_time = dt event\<rparr>]"
    by (subst execute_steps.simps) simp
qed

theorem execute_step_behaviour_witness:
  "execute_step scenario_A_interface
     \<lparr>model = scenario_A, seed = 0, state = [0], time = 5, time_cutoff = 100, step = 2,
      solver = [0], history = []\<rparr>
     = Inr (False, \<lparr>model = scenario_A, seed = 0, state = [0], time = 5, time_cutoff = 100, step = 2,
                    solver = [0], history = []\<rparr>)
   \<and> (\<exists>sim'. execute_step scenario_A_interface
         \<lparr>model = scenario_A, seed = 0, state = [2], time = 0, time_cutoff = 0, step = 0,
          solver = [2], history = [\<lparr>reaction_id = 0, history_time = 0\<rparr>]\<rparr> = Inr (False, sim')
       \<and> execute_steps scenario_A_interface 0
         \<lparr>model = scenario_A, seed = 0, state = [2], time = 0, time_cutoff = 0, step = 0,
          solver = [2], history = [\<lparr>reaction_id = 0, history_time = 0\<rparr>]\<rparr> = Inr sim'
       \<and> step sim' = 1 \<and> time sim' = 1/2 \<and> state sim' = [1] \<and> solver sim' = [1]
       \<and> history sim' = [\<lparr>reaction_id = 0, history_time = 1/2\<rparr>])"
proof -
  let ?idle = "\<lparr>model = scenario_A, seed = 0, state = [0], time = 5, time_cutoff = 100, step = 2,
      solver = [0 :: real], history = []\<rparr>"
  let ?sim = "\<lparr>model = scenario_A, seed = 0, state = [2], time = 0, time_cutoff = 0, step = 0,
          solver = [2 :: real], history = [\<lparr>reaction_id = 0, history_time = 0\<rparr>]\<rparr>"
  let ?ev = "\<lparr>event_index = 0, dt = 1/2\<rparr>"
  let ?m1 = "snd (projr (update_propensities scenario_A [1] 0))"
  have e0: "Solver_event scenario_A_interface (solver ?idle) = (None, [0])"
    by (simp add: scenario_A_interface_def network_interface_def first_reaction_event_def)
  have e1: "Solver_event scenario_A_interface (solver ?sim) = (Some ?ev, [2])"
    by (simp add: scenario_A_interface_def network_interface_def first_reaction_event_def)
  have u: "Model_update_state scenario_A_interface (model ?sim) (state ?sim) (event_index ?ev) = Inr [1]"
    by (simp add: scenario_A_interface_def network_interface_def update_state_def scenario_A_def
                  vec_at_def vec_set_def decrement_at_def arr2_at_def)
  have p0: "map_sum id fst (update_propensities scenario_A [1] 0) = Inr [\<lparr>index = 0, propensity = 1\<rparr>]"
    by code_simp
  then have p: "Model_update_propensities scenario_A_interface (model ?sim) [1] (event_index ?ev)
                  = Inr ([\<lparr>index = 0, propensity = 1\<rparr>], ?m1)"
    by (cases "update_propensities scenario_A [1] 0")
       (auto simp: scenario_A_interface_def network_interface_def)
  note t = execute_step_behaviour [where ops = scenario_A_interface and sim = ?idle
              and ?solver1.0 = "[0]"]
  note t' = execute_step_behaviour [where ops = scenario_A_interface and sim = ?sim
               and event = ?ev and ?solver1.0 = "[2]" and ?state1.0 = "[1]"
               and emitted = "[\<lparr>index = 0, propensity = 1\<rparr>]" and ?model1.0 = ?m1
               and step_cutoff = 0]
  have a: "execute_step scenario_A_interface ?idle = Inr (False, ?idle)"
    using t [THEN conjunct1] e0 by simp
  from t' [THEN conjunct2] e1 u p
  have "\<exists>sim'. execute_step scenario_A_interface ?sim = Inr (False, sim')
          \<and> execute_steps scenario_A_interface 0 ?sim = Inr sim'
          \<and> step sim' = step ?sim + 1 \<and> time sim' = dt ?ev
          \<and> history sim' = (history ?sim)[nat (step ?sim) :=
                \<lparr>reaction_id = event_index ?ev, history_time = dt ?ev\<rparr>]
          \<and> state sim' = [1] \<and> solver sim' = [1]"
    by (auto simp: scenario_A_interface_def network_interface_def first_reaction_update_def)
  with a show ?thesis by auto
qed

lemma execute_step_history:
  assumes "execute_step ops sim = Inr (continue, sim')"
  shows "length (history sim') = length (history sim)
         \<and> (continue \<longrightarrow> step sim' = step sim + 1)
         \<and> step sim \<le> step sim' \<and> step sim' \<le> step sim + 1"
  using assms
  by (auto simp: execute_step_def Let_def split: prod.splits option.splits if_splits sum.splits)

lemma execute_step_in_bounds:
  assumes "0 \<le> step sim" "step sim < int (length (history sim))"
  shows "execute_step ops sim \<noteq> Inl HistoryOutOfBounds"
  using assms
  by (auto simp: execute_step_def Let_def split: prod.splits option.splits if_splits sum.splits)

lemma execute_steps_in_bounds:
  "0 \<le> step sim \<Longrightarrow> step sim \<le> step_cutoff \<Longrightarrow>
   length (history sim) = nat (step_cutoff + 1) \<Longrightarrow>
   execute_steps ops step_cutoff sim \<noteq> Inl HistoryOutOfBounds
   \<and> (\<forall>sim'. execute_steps ops step_cutoff sim = Inr sim' \<longrightarrow>
         step sim \<le> step sim' \<and> step sim' \<le> step_cutoff + 1
         \<and> length (history sim') = nat (step_cutoff + 1))"
proof (induction ops step_cutoff sim rule: execute_steps.induct)
  case (1 ops step_cutoff sim)
  have inb: "execute_step ops sim \<noteq> Inl HistoryOutOfBounds"
    using "1.prems" by (intro execute_step_in_bounds) simp_all
  show ?case
  proof (cases "execute_step ops sim")
    case (Inl e)
    with inb show ?thesis by (subst (1 2) execute_steps.simps) simp
  next
    case (Inr r)
    obtain continue sim1 where r: "r = (continue, sim1)" by (cases r)
    note h = execute_step_history [OF Inr [unfolded r]]
    show ?thesis
    proof (cases "continue \<and> \<not> step_cutoff < step sim1")
      case False
      then have "execute_steps ops step_cutoff sim = Inr sim1"
        using Inr r by (subst execute_steps.simps) auto
      then show ?thesis using h "1.prems" by auto
    next
      case True
      then have eq: "execute_steps ops step_cutoff sim = execute_steps ops step_cutoff sim1"
        using Inr r by (subst execute_steps.simps) simp
      have "execute_steps ops step_cutoff sim1 \<noteq> Inl HistoryOutOfBounds
            \<and> (\<forall>sim'. execute_steps ops step_cutoff sim1 = Inr sim' \<longrightarrow>
                 step sim1 \<le> step sim' \<and> step sim' \<le> step_cutoff + 1
                 \<and> length (history sim') = nat (step_cutoff + 1))"
        using True h "1.prems"
        by (intro "1.IH" [OF Inr r [symmetric]]) auto
      then show ?thesis using eq h by auto
    qed
  qed
qed

text \<open>
  Claim C9. For \<open>0 \<le> step_cutoff\<close> the constructor yields a simulation with
  \<open>step = 0\<close> and a history of \<open>step_cutoff + 1\<close> elements. \<open>execute_steps\<close> (a total
  function: it repeats \<open>execute_step\<close> until that returns stop or \<open>step\<close> exceeds
  \<open>step_cutoff\<close>) then never writes outside the history, whatever the solver and the
  model do: a write at an index above \<open>step_cutoff\<close> would be \<open>HistoryOutOfBounds\<close>. At
  the end \<open>step\<close> is at most \<open>step_cutoff + 1\<close> and the history has kept its length.
\<close>

theorem execute_steps_history_in_bounds:
  assumes "0 \<le> step_cutoff"
    and "new_Simulation ops model_ref seed_arg step_cutoff time_cutoff_arg = Inr sim"
  shows "step sim = 0 \<and> length (history sim) = nat (step_cutoff + 1)
         \<and> execute_steps ops step_cutoff sim \<noteq> Inl HistoryOutOfBounds
         \<and> (\<forall>sim'. execute_steps ops step_cutoff sim = Inr sim' \<longrightarrow>
               step sim' \<le> step_cutoff + 1 \<and> length (history sim') = nat (step_cutoff + 1))"
proof -
  from assms have s: "step sim = 0" "length (history sim) = nat (step_cutoff + 1)"
    by (auto simp: new_Simulation_def split: if_splits)
  with assms(1) execute_steps_in_bounds [of sim step_cutoff ops] show ?thesis by auto
qed

lemma scenario_A_run:
  "(case new_Simulation scenario_A_interface scenario_A 0 1 100 of
      Inl e \<Rightarrow> None
    | Inr sim \<Rightarrow>
        (case execute_steps scenario_A_interface 1 sim of
           Inl e \<Rightarrow> None
         | Inr sim' \<Rightarrow> Some (step sim', state sim', map reaction_id (history sim'), time sim')))
   = Some (2, [0], [0, 0], 3/2)"
  by code_simp

theorem execute_steps_history_in_bounds_witness:
  "\<exists>sim sim'. new_Simulation scenario_A_interface scenario_A 0 1 100 = Inr sim
      \<and> step sim = 0 \<and> length (history sim) = 2
      \<and> execute_steps scenario_A_interface 1 sim = Inr sim'
      \<and> step sim' = 2 \<and> length (history sim') = 2 \<and> map reaction_id (history sim') = [0, 0]"
proof -
  obtain sim where sim: "new_Simulation scenario_A_interface scenario_A 0 1 100 = Inr sim"
    by (simp add: new_Simulation_def)
  note t = execute_steps_history_in_bounds [OF _ sim]
  obtain sim' where run: "execute_steps scenario_A_interface 1 sim = Inr sim'"
    and vals: "step sim' = 2" "map reaction_id (history sim') = [0, 0]"
    using scenario_A_run by (auto simp: sim split: sum.splits)
  from t run have "length (history sim') = nat (1 + 1)" "step sim = 0" "length (history sim) = nat (1 + 1)"
    by simp_all
  with sim run vals show ?thesis by simp
qed

section \<open>Properties of the nanoparticle model\<close>

lemmas np_defs = new_NanoParticle_def resized_def load_species_def load_site_def
  load_interaction_def row_interaction_def put_one_site_def put_two_site_def
  load_initial_state_def compute_distance_matrix_def site_distance_squared_def
  enumerate_site_def enumerate_pair_def add_initial_reaction_def one_site_lookup_def
  two_site_lookup_def matrix_at_def set_insert_def one_site_reaction_def two_site_reaction_def
  vec_at_def vec_set_def and_then_def

subsection \<open>Initial enumeration\<close>

text \<open>
  Claim C3, evaluated on the code. On Scenario E the constructor enumerates four
  reactions, not two: the loop over \<open>site_id_0\<close> adds both orientations of the pair for
  \<open>site_id_0 = 0\<close> and adds both again for \<open>site_id_0 = 1\<close>. Each has the rate
  \<open>0.9 * two_site_interaction_factor\<close>.
\<close>

theorem scenario_E_initial_reactions:
  "map_sum id (\<lambda>np. map (\<lambda>r. (site_id r, reaction_rate r)) (initial_reactions np))
      (new_NanoParticle (scenario_E f))
     = Inr [((0, 1), 9 / 10 * f), ((1, 0), 9 / 10 * f), ((1, 0), 9 / 10 * f), ((0, 1), 9 / 10 * f)]"
  by (simp add: scenario_E_def np_defs Let_def upt_rec)

subsection \<open>State update\<close>

text \<open>
  Claim C7, as the code has it. For a one- or two-site reaction whose sites are distinct
  positions of the state, \<open>update_state\<close> checks site 0 and, if the check holds, writes
  site 0 before it checks site 1. When both checks hold every site of the reaction gets
  its right state and no other position changes. When the check of site 0 fails the
  interrupt is raised on the unchanged state; when the check of site 1 fails the
  interrupt is raised after site 0 has been written.
\<close>

theorem update_state_np_behaviour:
  assumes "number_of_sites (interaction r) = 1 \<or> number_of_sites (interaction r) = 2"
    and "site_id r = (s0, s1)"
    and "left_state (interaction r) = (l0, l1)"
    and "right_state (interaction r) = (r0, r1)"
    and "0 \<le> s0" "s0 < int (length st)"
    and "number_of_sites (interaction r) = 2 \<longrightarrow> 0 \<le> s1 \<and> s1 < int (length st) \<and> s0 \<noteq> s1"
  shows "(st ! nat s0 \<noteq> l0 \<longrightarrow> update_state_np st r = Inl (Interrupt, st))
       \<and> (st ! nat s0 = l0 \<and> number_of_sites (interaction r) = 1 \<longrightarrow>
            update_state_np st r = Inr (st[nat s0 := r0]))
       \<and> (st ! nat s0 = l0 \<and> number_of_sites (interaction r) = 2 \<and> st ! nat s1 \<noteq> l1 \<longrightarrow>
            update_state_np st r = Inl (Interrupt, st[nat s0 := r0]))
       \<and> (st ! nat s0 = l0 \<and> number_of_sites (interaction r) = 2 \<and> st ! nat s1 = l1 \<longrightarrow>
            update_state_np st r = Inr (st[nat s0 := r0, nat s1 := r1]))"
proof -
  from assms(1) show ?thesis
  proof
    assume n: "number_of_sites (interaction r) = 1"
    show ?thesis
      using assms(2-6) n
      by (simp add: update_state_np_def update_site_state_def arr2_at_def vec_at_def vec_set_def)
  next
    assume n: "number_of_sites (interaction r) = 2"
    with assms(7) have s1: "0 \<le> s1" "s1 < int (length st)" "s0 \<noteq> s1" by simp_all
    then have ne: "nat s0 \<noteq> nat s1" using assms(5) by simp
    have two: "[0..<2] = [0, 1 :: nat]" by (simp add: upt_rec)
    show ?thesis
      using assms(2-6) n s1 ne
      by (simp add: update_state_np_def update_site_state_def arr2_at_def vec_at_def vec_set_def two)
  qed
qed

theorem update_state_np_behaviour_witness:
  "update_state_np [0, 0] pair_reaction = Inr [1, 1]
   \<and> update_state_np [1, 0] pair_reaction = Inl (Interrupt, [1, 0])
   \<and> update_state_np [0, 1, 5] pair_reaction = Inl (Interrupt, [1, 1, 5])
   \<and> update_state_np [0, 0, 5] pair_reaction = Inr [1, 1, 5]"
  using update_state_np_behaviour [of pair_reaction 0 1 0 0 1 1 "[0, 0]"]
    update_state_np_behaviour [of pair_reaction 0 1 0 0 1 1 "[1, 0]"]
    update_state_np_behaviour [of pair_reaction 0 1 0 0 1 1 "[0, 1, 5]"]
    update_state_np_behaviour [of pair_reaction 0 1 0 0 1 1 "[0, 0, 5]"]
  by (simp add: pair_reaction_def)

text \<open>The claim as stated, that the interrupt is raised with the state not yet mutated,
  fails for a two-site reaction whose second site is in the wrong state.\<close>

theorem update_state_np_mutates_before_interrupt:
  "update_state_np [0, 1] pair_reaction = Inl (Interrupt, [1, 1]) \<and> [1, 1] \<noteq> [0, 1 :: int]"
  by (simp add: update_state_np_def update_site_state_def arr2_at_def vec_at_def vec_set_def
                pair_reaction_def upt_rec)

subsection \<open>Size of the interaction tensors\<close>

lemma Max_insert_max:
  fixes S :: "int set"
  assumes "finite S"
  shows "Max (insert (if a < l then l else a) S) = Max (insert a (insert l S))"
proof (cases "S = {}")
  case True
  then show ?thesis by (simp add: max_def)
next
  case False
  then show ?thesis using assms by (simp add: max_def)
qed

lemma load_interaction_step:
  "load_interaction row (one0, two0, ns0, c0)
     = (if interaction_row_number_of_sites row = 1 then one0 @ [row_interaction row c0] else one0,
        if interaction_row_number_of_sites row = 2 then two0 @ [row_interaction row c0] else two0,
        if ns0 < interaction_row_left_state_1 row then interaction_row_left_state_1 row else ns0,
        c0 + 1)"
  by (simp add: load_interaction_def)

lemma load_interaction_num_states:
  "fold load_interaction rows (one0, two0, ns0, c0) = (one, two, ns, c) \<Longrightarrow>
   ns = Max (insert ns0 (interaction_row_left_state_1 ` set rows))"
proof (induction rows arbitrary: one0 two0 ns0 c0)
  case Nil
  then show ?case by simp
next
  case (Cons row rows)
  have "fold load_interaction rows (load_interaction row (one0, two0, ns0, c0)) = (one, two, ns, c)"
    using Cons.prems by simp
  then have "ns = Max (insert (if ns0 < interaction_row_left_state_1 row
                                then interaction_row_left_state_1 row else ns0)
                         (interaction_row_left_state_1 ` set rows))"
    unfolding load_interaction_step by (rule Cons.IH)
  also have "\<dots> = Max (insert ns0 (insert (interaction_row_left_state_1 row)
                         (interaction_row_left_state_1 ` set rows)))"
    by (rule Max_insert_max) simp
  finally show ?case by simp
qed

lemma load_interaction_number_of_sites:
  "fold load_interaction rows (one0, two0, ns0, c0) = (one, two, ns, c) \<Longrightarrow>
   \<forall>i \<in> set one0. number_of_sites i = 1 \<Longrightarrow> \<forall>i \<in> set two0. number_of_sites i = 2 \<Longrightarrow>
   (\<forall>i \<in> set one. number_of_sites i = 1) \<and> (\<forall>i \<in> set two. number_of_sites i = 2)"
proof (induction rows arbitrary: one0 two0 ns0 c0)
  case Nil
  then show ?case by simp
next
  case (Cons row rows)
  have "fold load_interaction rows (load_interaction row (one0, two0, ns0, c0)) = (one, two, ns, c)"
    using Cons.prems(1) by simp
  then show ?case
    unfolding load_interaction_step
  proof (rule Cons.IH)
    show "\<forall>i \<in> set (if interaction_row_number_of_sites row = 1
                        then one0 @ [row_interaction row c0] else one0). number_of_sites i = 1"
      using Cons.prems(2) by (simp add: row_interaction_def)
    show "\<forall>i \<in> set (if interaction_row_number_of_sites row = 2
                        then two0 @ [row_interaction row c0] else two0). number_of_sites i = 2"
      using Cons.prems(3) by (simp add: row_interaction_def)
  qed
qed

lemma vec_set_same_image:
  assumes "vec_at xs i = Inr x" "vec_set xs i x' = Inr xs'" "f x' = f x"
  shows "map f xs' = map f xs"
proof -
  from assms(1) have i: "0 \<le> i" "i < int (length xs)" and x: "x = xs ! nat i"
    by (auto simp: vec_at_def split: if_splits)
  with assms(2) have "xs' = xs[nat i := x']" by (simp add: vec_set_def)
  then have "map f xs' = (map f xs)[nat i := f (xs ! nat i)]"
    using assms(3) x by (simp add: map_update)
  also have "\<dots> = map f xs"
    using i by (intro nth_equalityI) (auto simp: nth_list_update)
  finally show ?thesis .
qed

lemma vec_set_length: "vec_set xs i x = Inr xs' \<Longrightarrow> length xs' = length xs"
  by (auto simp: vec_set_def split: if_splits)

lemma put_one_site_shape:
  assumes "put_one_site i m = Inr m'"
  shows "map length m' = map length m"
proof -
  from assms obtain by_state cell by_state' where
    a: "vec_at m (fst (species_id i)) = Inr by_state"
    and c: "vec_set by_state (fst (left_state i)) (cell @ [i]) = Inr by_state'"
    and d: "vec_set m (fst (species_id i)) by_state' = Inr m'"
    by (auto simp: put_one_site_def and_then_eq_Inr)
  show ?thesis by (rule vec_set_same_image [OF a d]) (rule vec_set_length [OF c])
qed

lemma put_two_site_shape:
  assumes "put_two_site i m = Inr m'"
  shows "map (map (map length)) m' = map (map (map length)) m"
    and "\<exists>a b. a < length m \<and> b < length (m ! a)
            \<and> 0 \<le> fst (left_state i) \<and> fst (left_state i) < int (length (m ! a ! b))
            \<and> 0 \<le> snd (left_state i)
            \<and> snd (left_state i) < int (length (m ! a ! b ! nat (fst (left_state i))))"
proof -
  from assms obtain m1 m2 m3 cell m3' m2' m1' where
    a1: "vec_at m (fst (species_id i)) = Inr m1"
    and a2: "vec_at m1 (snd (species_id i)) = Inr m2"
    and a3: "vec_at m2 (fst (left_state i)) = Inr m3"
    and a4: "vec_at m3 (snd (left_state i)) = Inr cell"
    and s3: "vec_set m3 (snd (left_state i)) (cell @ [i]) = Inr m3'"
    and s2: "vec_set m2 (fst (left_state i)) m3' = Inr m2'"
    and s1: "vec_set m1 (snd (species_id i)) m2' = Inr m1'"
    and s0: "vec_set m (fst (species_id i)) m1' = Inr m'"
    by (auto simp: put_two_site_def and_then_eq_Inr)
  have l3: "length m3' = length m3" by (rule vec_set_length [OF s3])
  have l2: "map length m2' = map length m2" by (rule vec_set_same_image [OF a3 s2 l3])
  have l1: "map (map length) m1' = map (map length) m1" by (rule vec_set_same_image [OF a2 s1 l2])
  show "map (map (map length)) m' = map (map (map length)) m"
    by (rule vec_set_same_image [OF a1 s0 l1])
  show "\<exists>a b. a < length m \<and> b < length (m ! a)
            \<and> 0 \<le> fst (left_state i) \<and> fst (left_state i) < int (length (m ! a ! b))
            \<and> 0 \<le> snd (left_state i)
            \<and> snd (left_state i) < int (length (m ! a ! b ! nat (fst (left_state i))))"
  proof (rule exI [of _ "nat (fst (species_id i))"], rule exI [of _ "nat (snd (species_id i))"],
         intro conjI)
    from a1 have m1: "m1 = m ! nat (fst (species_id i))"
      and 1: "0 \<le> fst (species_id i)" "fst (species_id i) < int (length m)"
      by (simp_all add: vec_at_eq_Inr)
    from a2 have m2: "m2 = m1 ! nat (snd (species_id i))"
      and 2: "0 \<le> snd (species_id i)" "snd (species_id i) < int (length m1)"
      by (simp_all add: vec_at_eq_Inr)
    from a3 have m3: "m3 = m2 ! nat (fst (left_state i))"
      and 3: "0 \<le> fst (left_state i)" "fst (left_state i) < int (length m2)"
      by (simp_all add: vec_at_eq_Inr)
    from a4 have 4: "0 \<le> snd (left_state i)" "snd (left_state i) < int (length m3)"
      by (simp_all add: vec_at_eq_Inr)
    show "nat (fst (species_id i)) < length m" using 1 by simp
    show "nat (snd (species_id i)) < length (m ! nat (fst (species_id i)))"
      using 2 by (simp add: m1)
    show "0 \<le> fst (left_state i)" by (rule 3(1))
    show "fst (left_state i) < int (length (m ! nat (fst (species_id i)) ! nat (snd (species_id i))))"
      using 3(2) by (simp add: m1 m2)
    show "0 \<le> snd (left_state i)" by (rule 4(1))
    show "snd (left_state i)
            < int (length (m ! nat (fst (species_id i)) ! nat (snd (species_id i))
                             ! nat (fst (left_state i))))"
      using 4(2) by (simp add: m1 m2 m3)
  qed
qed

lemma shape_nth:
  assumes "map (map (map length)) m = replicate S (replicate S (replicate n n))"
    and "a < length m" "b < length (m ! a)"
  shows "length (m ! a ! b) = n" and "k < n \<Longrightarrow> length (m ! a ! b ! k) = n"
proof -
  have "length (map (map (map length)) m) = S" by (simp only: assms(1) length_replicate)
  then have la: "length m = S" by simp
  have "map (map (map length)) m ! a = replicate S (replicate n n)"
    using assms(2) la by (simp only: assms(1) nth_replicate)
  then have 1: "map (map length) (m ! a) = replicate S (replicate n n)"
    using assms(2) by simp
  have "length (map (map length) (m ! a)) = S" by (simp only: 1 length_replicate)
  then have lb: "length (m ! a) = S" by simp
  have "map (map length) (m ! a) ! b = replicate n n"
    using assms(3) lb by (simp only: 1 nth_replicate)
  then have 2: "map length (m ! a ! b) = replicate n n"
    using assms(3) by simp
  have "length (map length (m ! a ! b)) = n" by (simp only: 2 length_replicate)
  then show 3: "length (m ! a ! b) = n" by simp
  assume k: "k < n"
  have "map length (m ! a ! b) ! k = n" using k by (simp only: 2 nth_replicate)
  then show "length (m ! a ! b ! k) = n" using k 3 by simp
qed

lemma put_two_site_loop:
  "for_each put_two_site is m = Inr m' \<Longrightarrow>
   map (map (map length)) m = replicate S (replicate S (replicate n n)) \<Longrightarrow>
   map (map (map length)) m' = replicate S (replicate S (replicate n n))
   \<and> (\<forall>i \<in> set is. 0 \<le> fst (left_state i) \<and> fst (left_state i) < int n
                    \<and> 0 \<le> snd (left_state i) \<and> snd (left_state i) < int n)"
proof (induction "is" arbitrary: m)
  case Nil
  then show ?case by simp
next
  case (Cons i "is")
  from Cons.prems(1) obtain m1 where p: "put_two_site i m = Inr m1"
    and rest: "for_each put_two_site is m1 = Inr m'"
    by (auto split: sum.splits)
  from put_two_site_shape(2) [OF p] obtain a b where ab: "a < length m" "b < length (m ! a)"
    and f: "0 \<le> fst (left_state i)" "fst (left_state i) < int (length (m ! a ! b))"
    and s: "0 \<le> snd (left_state i)"
      "snd (left_state i) < int (length (m ! a ! b ! nat (fst (left_state i))))"
    by blast
  have n1: "length (m ! a ! b) = n" by (rule shape_nth(1) [OF Cons.prems(2) ab])
  with f have k: "nat (fst (left_state i)) < n" by simp
  have n2: "length (m ! a ! b ! nat (fst (left_state i))) = n"
    by (rule shape_nth(2) [OF Cons.prems(2) ab k])
  have "map (map (map length)) m1 = replicate S (replicate S (replicate n n))"
    using put_two_site_shape(1) [OF p] Cons.prems(2) by simp
  from Cons.IH [OF rest this] have ih:
    "map (map (map length)) m' = replicate S (replicate S (replicate n n))"
    "\<forall>i \<in> set is. 0 \<le> fst (left_state i) \<and> fst (left_state i) < int n
                    \<and> 0 \<le> snd (left_state i) \<and> snd (left_state i) < int n"
    by simp_all
  have "fst (left_state i) < int n" "snd (left_state i) < int n"
    using f(2) s(2) n1 n2 by simp_all
  with ih f(1) s(1) show ?case by simp
qed

lemma put_one_site_loop:
  "for_each put_one_site is m = Inr m' \<Longrightarrow> map length m' = map length m"
proof (induction "is" arbitrary: m)
  case Nil
  then show ?case by simp
next
  case (Cons i "is")
  from Cons.prems obtain m1 where p: "put_one_site i m = Inr m1"
    and rest: "for_each put_one_site is m1 = Inr m'"
    by (auto split: sum.splits)
  show ?case
    using Cons.IH [OF rest] put_one_site_shape [OF p] by simp
qed

lemma new_NanoParticle_tables:
  assumes "new_NanoParticle db = Inr np"
  shows "\<exists>metadata_row others one two ns c.
           metadata_rows db = metadata_row # others
           \<and> fold load_interaction (interactions_rows db) ([], [], 0, 0) = (one, two, ns, c)
           \<and> for_each put_one_site one
                 (replicate (nat (metadata_number_of_species metadata_row))
                    (replicate (nat (ns + 1)) [])) = Inr (one_site_interactions_map np)
           \<and> for_each put_two_site two
                 (replicate (nat (metadata_number_of_species metadata_row))
                    (replicate (nat (metadata_number_of_species metadata_row))
                       (replicate (nat (ns + 1)) (replicate (nat (ns + 1)) []))))
                 = Inr (two_site_interactions_map np)
           \<and> one_site_interactions np = one \<and> two_site_interactions np = two"
proof -
  from assms obtain metadata_row others where m: "metadata_rows db = metadata_row # others"
    by (cases "metadata_rows db") (simp_all add: new_NanoParticle_def)
  from assms m obtain factor_row others' where f: "factors_rows db = factor_row # others'"
    by (cases "factors_rows db") (simp_all add: new_NanoParticle_def)
  obtain one two ns c where
    l: "fold load_interaction (interactions_rows db) ([], [], 0, 0) = (one, two, ns, c)"
    by (metis prod_cases4)
  from assms show ?thesis
    unfolding new_NanoParticle_def m f l list.case prod.case Let_def and_then_eq_Inr
    by (elim exE conjE) (auto simp: m l)
qed

lemma vec_at_error: "vec_at xs i = Inl e \<Longrightarrow> e = OutOfBounds"
  by (auto simp: vec_at_def split: if_splits)

lemma one_site_lookup_error: "one_site_lookup np species st = Inl e \<Longrightarrow> e = OutOfBounds"
  by (cases "vec_at (one_site_interactions_map np) species")
     (auto simp: one_site_lookup_def dest: vec_at_error)

lemma one_site_lookup_in_range:
  assumes "map length (one_site_interactions_map np) = replicate S n"
    and "one_site_lookup np species st = Inr found"
  shows "0 \<le> st \<and> st < int n"
proof -
  from assms(2) obtain by_state where a: "vec_at (one_site_interactions_map np) species = Inr by_state"
    and b: "vec_at by_state st = Inr found"
    by (auto simp: one_site_lookup_def and_then_eq_Inr)
  from a have sp: "nat species < length (one_site_interactions_map np)"
    and bs: "by_state = one_site_interactions_map np ! nat species"
    by (auto simp: vec_at_eq_Inr)
  have "length (map length (one_site_interactions_map np)) = S"
    by (simp only: assms(1) length_replicate)
  then have "length (one_site_interactions_map np) = S" by simp
  with sp have "map length (one_site_interactions_map np) ! nat species = n"
    by (simp only: assms(1) nth_replicate)
  with sp bs have "length by_state = n" by simp
  with b show ?thesis by (auto simp: vec_at_eq_Inr)
qed

lemma two_site_lookup_in_range:
  assumes "map (map (map length)) (two_site_interactions_map np)
             = replicate S (replicate S (replicate n n))"
    and "two_site_lookup np a b sa sb = Inr found"
  shows "0 \<le> sa \<and> sa < int n \<and> 0 \<le> sb \<and> sb < int n"
proof -
  let ?m = "two_site_interactions_map np"
  from assms(2) obtain m1 m2 m3 where a1: "vec_at ?m a = Inr m1"
    and a2: "vec_at m1 b = Inr m2" and a3: "vec_at m2 sa = Inr m3" and a4: "vec_at m3 sb = Inr found"
    by (auto simp: two_site_lookup_def and_then_eq_Inr)
  from a1 have 1: "nat a < length ?m" and m1: "m1 = ?m ! nat a" by (auto simp: vec_at_eq_Inr)
  from a2 have 2: "nat b < length (?m ! nat a)" and m2: "m2 = ?m ! nat a ! nat b"
    by (auto simp: vec_at_eq_Inr m1)
  have n1: "length m2 = n" unfolding m2 by (rule shape_nth(1) [OF assms(1) 1 2])
  from a3 have 3: "0 \<le> sa" "sa < int (length m2)" and m3: "m3 = m2 ! nat sa"
    by (auto simp: vec_at_eq_Inr)
  from 3 n1 have k: "nat sa < n" by simp
  have n2: "length m3 = n" unfolding m3 m2 by (rule shape_nth(2) [OF assms(1) 1 2 k])
  from a4 have "0 \<le> sb" "sb < int (length m3)" by (auto simp: vec_at_eq_Inr)
  with 3 n1 n2 show ?thesis by simp
qed

lemma regeneration_out_of_bounds:
  assumes "\<And>species found. one_site_lookup np species (fst (right_state (interaction r))) \<noteq> Inr found"
    and "0 < number_of_sites (interaction r)"
  shows "update_reactions np st dep rs r = Inl OutOfBounds"
proof -
  obtain k where k: "nat (number_of_sites (interaction r)) = Suc k"
    using assms(2) by (cases "nat (number_of_sites (interaction r))") auto
  have "regenerate_site np st r 0 [] = Inl OutOfBounds"
  proof (cases "vec_at (sites np) (fst (site_id r))")
    case (Inl e)
    then show ?thesis
      by (simp add: regenerate_site_def arr2_at_def other_site_def vec_at_error)
  next
    case (Inr s0)
    obtain e where "one_site_lookup np (site_species_id s0) (fst (right_state (interaction r))) = Inl e"
      using assms(1) [of "site_species_id s0"]
      by (cases "one_site_lookup np (site_species_id s0) (fst (right_state (interaction r)))") auto
    then show ?thesis
      using Inr by (simp add: regenerate_site_def arr2_at_def other_site_def one_site_lookup_error)
  qed
  then have "generate_new_reactions np st r = Inl OutOfBounds"
    by (simp add: generate_new_reactions_def k upt_rec)
  then show ?thesis by (simp add: update_reactions_def)
qed

text \<open>
  Claim C10. Let \<open>M\<close> be the largest \<open>left_state_1\<close> of the interaction rows loaded (rows
  exist and their left states are not negative). In the model the constructor returns,
  the state dimensions of both tensors have length \<open>1 + M\<close>, whatever the
  \<open>degrees_of_freedom\<close> of the species. A lookup returns only for states between 0 and
  \<open>M\<close>; the constructor itself returns only if every \<open>left_state_2\<close> of a two-site
  interaction is at most \<open>M\<close>; and \<open>update_reactions\<close> after the firing of a reaction
  whose \<open>right_state_1\<close> exceeds \<open>M\<close> reads past the end of the one-site tensor.
\<close>

theorem interaction_tensors_sized_by_left_state_1:
  assumes "new_NanoParticle db = Inr np"
    and "interactions_rows db \<noteq> []"
    and "\<forall>row \<in> set (interactions_rows db). 0 \<le> interaction_row_left_state_1 row"
    and "M = Max (interaction_row_left_state_1 ` set (interactions_rows db))"
  shows "(\<exists>S. map length (one_site_interactions_map np) = replicate S (nat (1 + M))
            \<and> map (map (map length)) (two_site_interactions_map np)
                 = replicate S (replicate S (replicate (nat (1 + M)) (nat (1 + M)))))
       \<and> (\<forall>species st found. one_site_lookup np species st = Inr found \<longrightarrow> 0 \<le> st \<and> st \<le> M)
       \<and> (\<forall>a b sa sb found. two_site_lookup np a b sa sb = Inr found \<longrightarrow>
             0 \<le> sa \<and> sa \<le> M \<and> 0 \<le> sb \<and> sb \<le> M)
       \<and> (\<forall>i \<in> set (two_site_interactions np). snd (left_state i) \<le> M)
       \<and> (\<forall>st dep rs r. 0 < number_of_sites (interaction r) \<and> M < fst (right_state (interaction r))
             \<longrightarrow> update_reactions np st dep rs r = Inl OutOfBounds)"
proof -
  from new_NanoParticle_tables [OF assms(1)] obtain metadata_row :: MetadataSql and one two ns c where
    l: "fold load_interaction (interactions_rows db) ([], [], 0, 0) = (one, two, ns, c)"
    and p1: "for_each put_one_site one
                 (replicate (nat (metadata_number_of_species metadata_row))
                    (replicate (nat (ns + 1)) [])) = Inr (one_site_interactions_map np)"
    and p2: "for_each put_two_site two
                 (replicate (nat (metadata_number_of_species metadata_row))
                    (replicate (nat (metadata_number_of_species metadata_row))
                       (replicate (nat (ns + 1)) (replicate (nat (ns + 1)) []))))
                 = Inr (two_site_interactions_map np)"
    and two: "two_site_interactions np = two"
    by (elim exE conjE) (rule that, assumption+)
  let ?A = "interaction_row_left_state_1 ` set (interactions_rows db)"
  let ?S = "nat (metadata_number_of_species metadata_row)"
  let ?n = "nat (1 + M)"
  have fin: "finite ?A" "?A \<noteq> {}" using assms(2) by simp_all
  have "Max ?A \<in> ?A" by (rule Max_in [OF fin])
  then have M0: "0 \<le> M" using assms(3,4) by auto
  have "ns = Max (insert 0 ?A)" by (rule load_interaction_num_states [OF l])
  also have "\<dots> = max 0 (Max ?A)" by (rule Max_insert [OF fin])
  finally have ns: "ns = M" using M0 assms(4) by simp
  have s1: "map length (one_site_interactions_map np) = replicate ?S ?n"
    using put_one_site_loop [OF p1] by (simp add: ns add.commute)
  have "map (map (map length)) (replicate ?S (replicate ?S (replicate ?n (replicate ?n ([] :: Interaction list)))))
          = replicate ?S (replicate ?S (replicate ?n ?n))"
    by simp
  from put_two_site_loop [OF p2 [unfolded ns], of ?S ?n] this
  have s2: "map (map (map length)) (two_site_interactions_map np)
              = replicate ?S (replicate ?S (replicate ?n ?n))"
    and left: "\<forall>i \<in> set two. 0 \<le> fst (left_state i) \<and> fst (left_state i) < int ?n
                    \<and> 0 \<le> snd (left_state i) \<and> snd (left_state i) < int ?n"
    by (simp_all add: add.commute)
  have one_ok: "0 \<le> st \<and> st \<le> M" if "one_site_lookup np species st = Inr found" for species st found
    using one_site_lookup_in_range [OF s1 that] M0 by simp
  have two_ok: "0 \<le> sa \<and> sa \<le> M \<and> 0 \<le> sb \<and> sb \<le> M"
    if "two_site_lookup np a b sa sb = Inr found" for a b sa sb found
    using two_site_lookup_in_range [OF s2 that] M0 by simp
  have fail: "update_reactions np st dep rs r = Inl OutOfBounds"
    if "0 < number_of_sites (interaction r)" "M < fst (right_state (interaction r))" for st dep rs r
  proof (rule regeneration_out_of_bounds [OF _ that(1)])
    fix species found
    show "one_site_lookup np species (fst (right_state (interaction r))) \<noteq> Inr found"
      using one_ok [of species "fst (right_state (interaction r))" found] that(2) by auto
  qed
  show ?thesis
  proof (intro conjI)
    show "\<exists>S. map length (one_site_interactions_map np) = replicate S (nat (1 + M))
            \<and> map (map (map length)) (two_site_interactions_map np)
                 = replicate S (replicate S (replicate (nat (1 + M)) (nat (1 + M))))"
      using s1 s2 by blast
    show "\<forall>species st found. one_site_lookup np species st = Inr found \<longrightarrow> 0 \<le> st \<and> st \<le> M"
      using one_ok by blast
    show "\<forall>a b sa sb found. two_site_lookup np a b sa sb = Inr found \<longrightarrow>
             0 \<le> sa \<and> sa \<le> M \<and> 0 \<le> sb \<and> sb \<le> M"
      using two_ok by blast
    show "\<forall>i \<in> set (two_site_interactions np). snd (left_state i) \<le> M"
      using left M0 by (auto simp: two)
    show "\<forall>st dep rs r. 0 < number_of_sites (interaction r) \<and> M < fst (right_state (interaction r))
             \<longrightarrow> update_reactions np st dep rs r = Inl OutOfBounds"
      using fail by blast
  qed
qed

lemma scenario_E_loaded:
  "map_sum id (\<lambda>np. (degrees_of_freedom np, map length (one_site_interactions_map np),
       update_state_np (current_state np) (initial_reactions np ! 0),
       map (\<lambda>r. (number_of_sites (interaction r), right_state (interaction r))) (initial_reactions np)))
     (new_NanoParticle (scenario_E 1))
   = Inr ([2], [1], Inr [1, 1], [(2, (1, 1)), (2, (1, 1)), (2, (1, 1)), (2, (1, 1))])"
  by (simp add: scenario_E_def np_defs Let_def upt_rec arr2_at_def
        update_state_np_def update_site_state_def numeral_2_eq_2)

theorem interaction_tensors_sized_by_left_state_1_witness:
  "\<exists>np. new_NanoParticle (scenario_E 1) = Inr np
      \<and> degrees_of_freedom np = [2]
      \<and> map length (one_site_interactions_map np) = [1]
      \<and> update_state_np (current_state np) (initial_reactions np ! 0) = Inr [1, 1]
      \<and> update_reactions np [1, 1] (site_reaction_dependency np) (initial_reactions np)
            (initial_reactions np ! 0) = Inl OutOfBounds"
proof -
  obtain np where np: "new_NanoParticle (scenario_E 1) = Inr np"
    using scenario_E_loaded by (cases "new_NanoParticle (scenario_E 1)") simp_all
  have f: "degrees_of_freedom np = [2]" "map length (one_site_interactions_map np) = [1]"
      "update_state_np (current_state np) (initial_reactions np ! 0) = Inr [1, 1]"
    and r: "map (\<lambda>r. (number_of_sites (interaction r), right_state (interaction r))) (initial_reactions np)
              = [(2, (1, 1)), (2, (1, 1)), (2, (1, 1)), (2, (1, 1))]"
    using scenario_E_loaded unfolding np by simp_all
  from r have "(\<lambda>r. (number_of_sites (interaction r), right_state (interaction r))) (initial_reactions np ! 0)
                 = (2, (1, 1))"
    by (cases "initial_reactions np") auto
  then have fired: "0 < number_of_sites (interaction (initial_reactions np ! 0))
      \<and> 0 < fst (right_state (interaction (initial_reactions np ! 0)))"
    by simp
  have h: "interactions_rows (scenario_E 1) \<noteq> []"
    "\<forall>row \<in> set (interactions_rows (scenario_E 1)). 0 \<le> interaction_row_left_state_1 row"
    "0 = Max (interaction_row_left_state_1 ` set (interactions_rows (scenario_E 1)))"
    by (simp_all add: scenario_E_def)
  note t = interaction_tensors_sized_by_left_state_1 [OF np h]
  note last = t [THEN conjunct2, THEN conjunct2, THEN conjunct2, THEN conjunct2]
  have "update_reactions np [1, 1] (site_reaction_dependency np) (initial_reactions np)
            (initial_reactions np ! 0) = Inl OutOfBounds"
    using last [rule_format, OF fired] .
  with np f show ?thesis by (intro exI [of _ np]) simp
qed

end
